theory Spec2Isabelle
  imports Main "HOL-Library.Word"
begin

unbundle bit_operations_syntax

section \<open>The BLE multi-advertising manager of \<^verbatim>\<open>stack/btm/btm_ble_multi_adv.cc\<close>\<close>

text \<open>
  The manager is a single-threaded, callback-driven object. An HCI command returns at
  once and reports its completion later through a callback; so do the random-number
  request of the address generator and the alarms. The model keeps the manager's data
  in a record, lists the commands, address requests and alarms whose callbacks are still
  owed, and makes every callback of the source a constructor of one datatype, run by
  \<open>run_cb\<close>. What the outside world sees (commands handed to the HCI interface, user
  callbacks run, alarm operations) is appended to a trace in the order it happens.
\<close>

subsection \<open>Constants\<close>

type_synonym u8 = "8 word"
type_synonym u16 = "16 word"
type_synonym c_int = "32 word"

definition ADV_DATA_LEN_MAX :: nat where
  "ADV_DATA_LEN_MAX = 251"

text \<open>Local constants of \<open>DivideAndSendDataRecursively\<close>.\<close>

definition INTERMEDIATE :: u8 where "INTERMEDIATE = 0x00"
definition FIRST :: u8 where "FIRST = 0x01"
definition LAST :: u8 where "LAST = 0x02"
definition COMPLETE :: u8 where "COMPLETE = 0x03"

text \<open>
  Modelled from the spec: the macros \<open>HCI_EIR_FLAGS_TYPE\<close>,
  \<open>HCI_EIR_TX_POWER_LEVEL_TYPE\<close>, \<open>BTM_GENERAL_DISCOVERABLE\<close> and
  \<open>BTM_LIMITED_DISCOVERABLE\<close> are declared in headers that are not part of the
  sources at hand; their values are those of section 6.3 of the specification.
\<close>

definition HCI_EIR_FLAGS_TYPE :: u8 where "HCI_EIR_FLAGS_TYPE = 0x01"
definition HCI_EIR_TX_POWER_LEVEL_TYPE :: u8 where "HCI_EIR_TX_POWER_LEVEL_TYPE = 0x0A"
definition BTM_GENERAL_DISCOVERABLE :: u8 where "BTM_GENERAL_DISCOVERABLE = 0x02"
definition BTM_LIMITED_DISCOVERABLE :: u8 where "BTM_LIMITED_DISCOVERABLE = 0x01"

text \<open>
  Modelled from the spec: the macros \<open>BLE_RESOLVE_ADDR_MASK\<close> and
  \<open>BLE_RESOLVE_ADDR_MSB\<close> are declared in a header that is not part of the sources
  at hand. Section 4.3 of the specification says what the two statements using them do to
  byte 2 of the random draw: bit 7 is cleared and bit 6 is set.
\<close>

definition BLE_RESOLVE_ADDR_MASK :: u8 where "BLE_RESOLVE_ADDR_MASK = 0xC0"
definition BLE_RESOLVE_ADDR_MSB :: u8 where "BLE_RESOLVE_ADDR_MSB = 0x40"

text \<open>
  Modelled from the spec: the macro \<open>BTM_BLE_MULTI_ADV_SUCCESS\<close> is declared in a
  header that is not part of the sources at hand; section 6.2 of the specification gives
  its value, 0.
\<close>

definition BTM_BLE_MULTI_ADV_SUCCESS :: u8 where "BTM_BLE_MULTI_ADV_SUCCESS = 0"

subsection \<open>What the manager takes from its environment\<close>

text \<open>
  The other status codes, address types, the privacy switches, the controller's address, the
  identity root and the encryption function come from other files. They are parameters
  of the model. \<open>BLE_PRIVACY_SPT\<close> is the compile-time switch of the source,
  \<open>BTM_BleLocalPrivacyEnabled\<close> the run-time one. \<open>SMP_Encrypt\<close> returns \<open>None\<close>
  where the C function returns false.
\<close>

record platform =
  BTM_BLE_MULTI_ADV_FAILURE :: u8
  ADVERTISE_FAILED_TOO_MANY_ADVERTISERS :: u8
  BLE_ADDR_PUBLIC :: u8
  BLE_ADDR_RANDOM :: u8
  BTM_BLE_MULTI_ADV_MAX :: u8
  BTM_BLE_PRIVATE_ADDR_INT_MS :: "64 word"
  BLE_PRIVACY_SPT :: bool
  BTM_BleLocalPrivacyEnabled :: bool
  controller_address :: "u8 list"
  BTM_GetDeviceIDRoot :: "u8 list"
  SMP_Encrypt :: "u8 list \<Rightarrow> u8 list \<Rightarrow> u8 list option"

subsection \<open>Data\<close>

text \<open>
  \<open>tBTM_BLE_ADV_PARAMS\<close>: the fields that \<open>SetParameters\<close> reads. The field names
  carry the prefix \<open>p_\<close> because two of them are also fields of the instance.
\<close>

record tBTM_BLE_ADV_PARAMS =
  p_advertising_event_properties :: u16
  p_adv_int_min :: "32 word"
  p_adv_int_max :: "32 word"
  p_channel_map :: u8
  p_adv_filter_policy :: u8
  p_tx_power :: u8
  p_primary_advertising_phy :: u8
  p_secondary_advertising_phy :: u8
  p_scan_request_notification_enable :: u8

record tBLE_PERIODIC_ADV_PARAMS =
  pp_enable :: bool
  pp_min_interval :: u16
  pp_max_interval :: u16
  pp_periodic_advertising_properties :: u16

text \<open>
  \<open>AdvertisingInstance\<close>. The two alarm pointers are handles into the alarm store of
  the manager; \<open>nullptr\<close> is \<open>None\<close>. \<open>tx_power\<close> is an \<open>int8_t\<close>, kept as the
  byte that represents it. \<open>own_address\<close> is a \<open>BD_ADDR\<close>, six bytes.
\<close>

record AdvertisingInstance =
  inst_id :: u8
  in_use :: bool
  advertising_event_properties :: u8
  adv_raddr_timer :: nat
  tx_power :: u8
  timeout_s :: c_int
  timeout_timer :: "nat option"
  own_address_type :: u8
  own_address :: "u8 list"

text \<open>The commands of \<open>BleAdvertiserHciInterface\<close>, with the arguments the manager passes.\<close>

datatype hci_cmd =
    HciSetRandomAddress u8 "u8 list"
  | HciSetParameters u8 u16 "32 word" "32 word" u8 u8 "u8 list" u8 "u8 list" u8 u8 u8 u8 u8 u8 u8
  | HciSetAdvertisingData u8 u8 u8 u8 "u8 list"
  | HciSetScanResponseData u8 u8 u8 u8 "u8 list"
  | HciSetPeriodicAdvertisingParameters u8 u16 u16 u16
  | HciSetPeriodicAdvertisingData u8 u8 u8 "u8 list"
  | HciSetPeriodicAdvertisingEnable u8 u8
  | HciEnable bool u8 u16 u8

text \<open>The two senders that \<open>DivideAndSendData\<close> is given.\<close>

datatype DataSender = SetDataAdvDataSender bool | HciSetPeriodicAdvertisingDataSender

text \<open>
  Callbacks. \<open>UserCb n\<close> is a callback of the caller, known by a number only; running it
  is recorded in the trace. Every other constructor is one \<open>Bind\<close> of the source, with
  the values it binds. The arguments of a run are a list of bytes:
  \<open>[status]\<close> for a \<open>MultiAdvCb\<close>, \<open>[status, tx_power]\<close> for a \<open>ParametersCb\<close>,
  \<open>[inst_id, status]\<close> for a \<open>RegisterCb\<close>, \<open>[inst_id, tx_power, status]\<close> for an
  \<open>IdTxPowerStatusCb\<close>, \<open>[]\<close> for a \<open>Closure\<close> and the eight random bytes for the
  callback of the address generator.
\<close>

datatype cb =
    DoNothing
  | DoNothing2
  | UserCb nat
  | BindInstId cb u8
  | SA_SetParametersCb sa_params
  | SA_SetRandomAddressCb sa_params
  | SA_AdvDataCb sa_params
  | SA_ScanRspCb sa_params
  | SAS_RegisterCb CreatorParams
  | SAS_SetParametersCb CreatorParams
  | SAS_SetRandomAddressCb CreatorParams
  | SAS_AdvDataCb CreatorParams
  | SAS_ScanRspCb CreatorParams
  | SASP_ParametersCb CreatorParams
  | SASP_DataCb CreatorParams
  | SASP_EnableCb CreatorParams
  | SASF_EnableCb CreatorParams
  | EnableWithTimerCb_bound u8 cb c_int cb
  | DivideAndSendDataRecursively_bound bool u8 "u8 list" nat cb DataSender
  | Enable_bound u8 bool cb c_int cb
  | ConfigureRpa_lambda nat
  | RegisterAdvertiser_lambda nat cb
  | OnRpaGenerationComplete_bound u8 cb
  | btm_ble_adv_raddr_timer_timeout nat
and sa_params =
    SaParams (sa_inst_id: u8) (sa_cb: cb) (sa_params: tBTM_BLE_ADV_PARAMS)
      (sa_advertise_data: "u8 list") (sa_scan_response_data: "u8 list")
      (sa_timeout_s: c_int) (sa_timeout_cb: cb)
and CreatorParams =
    CreatorParams (c_inst_id: u8) (c_cb: cb) (c_params: tBTM_BLE_ADV_PARAMS)
      (c_advertise_data: "u8 list") (c_scan_response_data: "u8 list")
      (c_periodic_params: tBLE_PERIODIC_ADV_PARAMS) (c_periodic_data: "u8 list")
      (c_timeout_s: c_int) (c_timeout_cb: cb)


text \<open>
  An alarm of the platform's alarm facility: periodic or one-shot, armed with an interval
  and the callback to run, or idle; released by \<open>alarm_free\<close>.
\<close>

record alarm =
  a_periodic :: bool
  a_armed :: "(64 word \<times> cb) option"
  a_freed :: bool

datatype event =
    HciCmd hci_cmd
  | CbRun nat "u8 list"
  | RpaRequested
  | AlarmNew nat
  | AlarmSet nat "64 word"
  | AlarmCancel nat
  | AlarmFree nat
  | AclUpdateConnAddr u16 "u8 list"

text \<open>
  Where the C++ program leaves defined behaviour or aborts, the model stops and records
  why: an index outside the instance table or outside a payload, a failed
  \<open>LOG_ASSERT\<close>, an alarm handle that is not live.
\<close>

datatype fault = OutOfBounds | AssertFailed | BadAlarm

text \<open>
  The manager: \<open>adv_inst\<close> and \<open>inst_count\<close> are the members of
  \<open>BleAdvertisingManagerImpl\<close>; \<open>hci_pending\<close> holds the commands handed to the HCI
  interface whose completion has not arrived yet, oldest first, each with its callback;
  \<open>rpa_pending\<close> the callbacks waiting for random bytes; \<open>alarms\<close> the alarm store.
\<close>

record manager =
  plat :: platform
  adv_inst :: "AdvertisingInstance list"
  inst_count :: u8
  alarms :: "alarm list"
  hci_pending :: "(hci_cmd \<times> cb) list"
  rpa_pending :: "cb list"
  trace :: "event list"
  fault :: "fault option"

subsection \<open>The environment's operations\<close>

definition log_event :: "event \<Rightarrow> manager \<Rightarrow> manager" where
  "log_event e st = st\<lparr>trace := trace st @ [e]\<rparr>"

definition set_fault :: "fault \<Rightarrow> manager \<Rightarrow> manager" where
  "set_fault f st = st\<lparr>fault := Some f\<rparr>"

definition hci_send :: "hci_cmd \<Rightarrow> cb \<Rightarrow> manager \<Rightarrow> manager" where
  "hci_send cmd k st =
     st\<lparr>hci_pending := hci_pending st @ [(cmd, k)], trace := trace st @ [HciCmd cmd]\<rparr>"

definition alarm_live :: "nat \<Rightarrow> manager \<Rightarrow> bool" where
  "alarm_live h st = (h < length (alarms st) \<and> \<not> a_freed (alarms st ! h))"

definition alarm_new :: "bool \<Rightarrow> manager \<Rightarrow> manager" where
  "alarm_new periodic st =
     st\<lparr>alarms := alarms st @ [\<lparr>a_periodic = periodic, a_armed = None, a_freed = False\<rparr>],
        trace := trace st @ [AlarmNew (length (alarms st))]\<rparr>"

definition alarm_set_on_queue :: "nat \<Rightarrow> 64 word \<Rightarrow> cb \<Rightarrow> manager \<Rightarrow> manager" where
  "alarm_set_on_queue h interval_ms k st =
     (if alarm_live h st
      then st\<lparr>alarms := (alarms st)[h := (alarms st ! h)\<lparr>a_armed := Some (interval_ms, k)\<rparr>],
              trace := trace st @ [AlarmSet h interval_ms]\<rparr>
      else set_fault BadAlarm st)"

definition alarm_cancel :: "nat \<Rightarrow> manager \<Rightarrow> manager" where
  "alarm_cancel h st =
     (if alarm_live h st
      then st\<lparr>alarms := (alarms st)[h := (alarms st ! h)\<lparr>a_armed := None\<rparr>],
              trace := trace st @ [AlarmCancel h]\<rparr>
      else set_fault BadAlarm st)"

definition alarm_free :: "nat \<Rightarrow> manager \<Rightarrow> manager" where
  "alarm_free h st =
     (if alarm_live h st
      then st\<lparr>alarms := (alarms st)[h := (alarms st ! h)\<lparr>a_armed := None, a_freed := True\<rparr>],
              trace := trace st @ [AlarmFree h]\<rparr>
      else set_fault BadAlarm st)"

text \<open>\<open>btm_gen_resolvable_private_addr\<close>: the callback is owed eight random bytes.\<close>

definition btm_gen_resolvable_private_addr :: "cb \<Rightarrow> manager \<Rightarrow> manager" where
  "btm_gen_resolvable_private_addr k st =
     st\<lparr>rpa_pending := rpa_pending st @ [k], trace := trace st @ [RpaRequested]\<rparr>"

subsection \<open>Operations that run no callback\<close>

definition is_legacy_connectable :: "u16 \<Rightarrow> bool" where
  "is_legacy_connectable props =
     (if (props AND 0x10) \<noteq> 0 \<and> (props AND 0x01) \<noteq> 0 then True else False)"

definition upd_inst ::
  "nat \<Rightarrow> (AdvertisingInstance \<Rightarrow> AdvertisingInstance) \<Rightarrow> manager \<Rightarrow> manager" where
  "upd_inst i f st = st\<lparr>adv_inst := (adv_inst st)[i := f (adv_inst st ! i)]\<rparr>"

text \<open>
  \<open>ReadInstanceCountCb\<close> and the constructor of \<open>AdvertisingInstance\<close>, which creates
  the periodic address timer of the instance.
\<close>

definition new_AdvertisingInstance :: "u8 \<Rightarrow> manager \<Rightarrow> manager" where
  "new_AdvertisingInstance i st =
     (let h = length (alarms st);
          st1 = alarm_new True st
      in st1\<lparr>adv_inst := adv_inst st1 @
            [\<lparr>inst_id = i, in_use = False, advertising_event_properties = 0,
              adv_raddr_timer = h, tx_power = 0, timeout_s = 0, timeout_timer = None,
              own_address_type = 0, own_address = replicate 6 0\<rparr>]\<rparr>)"

definition ReadInstanceCountCb :: "u8 \<Rightarrow> manager \<Rightarrow> manager" where
  "ReadInstanceCountCb instance_count st =
     fold new_AdvertisingInstance (map of_nat [0 ..< unat instance_count])
       (st\<lparr>inst_count := instance_count\<rparr>)"

definition GenerateRpa :: "u8 \<Rightarrow> cb \<Rightarrow> manager \<Rightarrow> manager" where
  "GenerateRpa i k st = btm_gen_resolvable_private_addr (OnRpaGenerationComplete_bound i k) st"

definition ConfigureRpa :: "nat \<Rightarrow> manager \<Rightarrow> manager" where
  "ConfigureRpa p_inst st =
     (if \<not> p_inst < length (adv_inst st) then set_fault OutOfBounds st
      else GenerateRpa (inst_id (adv_inst st ! p_inst)) (ConfigureRpa_lambda p_inst) st)"

text \<open>
  The part of \<open>OnRpaGenerationComplete\<close> before \<open>cb.Run()\<close>: the two statements on
  \<open>rand[2]\<close>, the three stores into \<open>own_address\<close>, the encryption of the first three
  bytes of \<open>rand\<close>, the three stores of its output.
\<close>

definition rpa_rand :: "u8 list \<Rightarrow> u8 list" where
  "rpa_rand rand =
     (let rand1 = rand[2 := (rand ! 2) AND (NOT BLE_RESOLVE_ADDR_MASK)]
      in rand1[2 := (rand1 ! 2) OR BLE_RESOLVE_ADDR_MSB])"

definition OnRpaGenerationComplete_store :: "u8 \<Rightarrow> u8 list \<Rightarrow> manager \<Rightarrow> manager" where
  "OnRpaGenerationComplete_store i rand st =
     (if \<not> unat i < length (adv_inst st) then set_fault OutOfBounds st
      else
        let rand' = rpa_rand rand;
            st1 = upd_inst (unat i) (\<lambda>p. p\<lparr>own_address := (own_address p)[2 := rand' ! 0]\<rparr>) st;
            st2 = upd_inst (unat i) (\<lambda>p. p\<lparr>own_address := (own_address p)[1 := rand' ! 1]\<rparr>) st1;
            st3 = upd_inst (unat i) (\<lambda>p. p\<lparr>own_address := (own_address p)[0 := rand' ! 2]\<rparr>) st2
        in case SMP_Encrypt (plat st) (BTM_GetDeviceIDRoot (plat st)) (take 3 rand') of
             None \<Rightarrow> set_fault AssertFailed st3
           | Some output \<Rightarrow>
               let st4 = upd_inst (unat i) (\<lambda>p. p\<lparr>own_address := (own_address p)[5 := output ! 0]\<rparr>) st3;
                   st5 = upd_inst (unat i) (\<lambda>p. p\<lparr>own_address := (own_address p)[4 := output ! 1]\<rparr>) st4
               in upd_inst (unat i) (\<lambda>p. p\<lparr>own_address := (own_address p)[3 := output ! 2]\<rparr>) st5)"

definition Unregister :: "u8 \<Rightarrow> manager \<Rightarrow> manager" where
  "Unregister i st =
     (if i \<ge> inst_count st then st
      else
        let st1 = hci_send (HciEnable False i 0x00 0x00) DoNothing st
        in if \<not> unat i < length (adv_inst st1) then set_fault OutOfBounds st1
           else
             let st2 = alarm_cancel (adv_raddr_timer (adv_inst st1 ! unat i)) st1
             in if fault st2 \<noteq> None then st2
                else upd_inst (unat i) (\<lambda>p. p\<lparr>in_use := False\<rparr>) st2)"

definition SetPeriodicAdvertisingParameters ::
  "u8 \<Rightarrow> tBLE_PERIODIC_ADV_PARAMS \<Rightarrow> cb \<Rightarrow> manager \<Rightarrow> manager" where
  "SetPeriodicAdvertisingParameters i params k st =
     hci_send (HciSetPeriodicAdvertisingParameters i (pp_min_interval params)
       (pp_max_interval params) (pp_periodic_advertising_properties params)) k st"

definition SetPeriodicAdvertisingEnable :: "u8 \<Rightarrow> u8 \<Rightarrow> cb \<Rightarrow> manager \<Rightarrow> manager" where
  "SetPeriodicAdvertisingEnable i enable k st =
     hci_send (HciSetPeriodicAdvertisingEnable enable i) k st"

definition StartAdvertisingSetPeriodicPart :: "CreatorParams \<Rightarrow> manager \<Rightarrow> manager" where
  "StartAdvertisingSetPeriodicPart c st =
     SetPeriodicAdvertisingParameters (c_inst_id c) (c_periodic_params c) (SASP_ParametersCb c) st"

text \<open>
  The loop of \<open>SetData\<close> that fills in the TX power. \<open>data[i + 1]\<close> and
  \<open>data[i + 2]\<close> are not checked against \<open>data.size()\<close> in the source; an index past
  the end of the vector is \<open>None\<close> here.
\<close>

function fill_tx_power :: "u8 \<Rightarrow> nat \<Rightarrow> u8 list \<Rightarrow> u8 list option" where
  "fill_tx_power txp i data =
     (if i < length data then
        if \<not> i + 1 < length data then None
        else if data ! (i + 1) = HCI_EIR_TX_POWER_LEVEL_TYPE then
          if \<not> i + 2 < length data then None
          else fill_tx_power txp (i + (unat (data[i + 2 := txp] ! i) + 1)) (data[i + 2 := txp])
        else fill_tx_power txp (i + (unat (data ! i) + 1)) data
      else Some data)"
  by pat_completeness auto
termination
  by (relation "measure (\<lambda>(txp, i, data). length data - i)") auto

declare fill_tx_power.simps [simp del]

text \<open>The part of \<open>SetData\<close> between the check of \<open>inst_id\<close> and \<open>DivideAndSendData\<close>.\<close>

definition SetData_flags :: "AdvertisingInstance \<Rightarrow> bool \<Rightarrow> u8 list \<Rightarrow> u8 list" where
  "SetData_flags p_inst is_scan_rsp data =
     (if \<not> is_scan_rsp \<and> is_legacy_connectable (ucast (advertising_event_properties p_inst))
      then
        let flags_val = (if timeout_s p_inst \<noteq> 0 then BTM_LIMITED_DISCOVERABLE
                         else BTM_GENERAL_DISCOVERABLE)
        in [2, HCI_EIR_FLAGS_TYPE, flags_val] @ data
      else data)"

definition SetData_prepare :: "AdvertisingInstance \<Rightarrow> bool \<Rightarrow> u8 list \<Rightarrow> u8 list option" where
  "SetData_prepare p_inst is_scan_rsp data =
     (let data1 = SetData_flags p_inst is_scan_rsp data
      in if length data1 \<noteq> 0 then fill_tx_power (tx_power p_inst) 0 data1 else Some data1)"

definition run_sender :: "DataSender \<Rightarrow> u8 \<Rightarrow> u8 \<Rightarrow> u8 \<Rightarrow> u8 list \<Rightarrow> cb \<Rightarrow> manager \<Rightarrow> manager" where
  "run_sender sender i operation len chunk k st =
     (case sender of
        SetDataAdvDataSender is_scan_rsp \<Rightarrow>
          if is_scan_rsp then hci_send (HciSetScanResponseData i operation 0x01 len chunk) k st
          else hci_send (HciSetAdvertisingData i operation 0x01 len chunk) k st
      | HciSetPeriodicAdvertisingDataSender \<Rightarrow>
          hci_send (HciSetPeriodicAdvertisingData i operation len chunk) k st)"

definition set_c_inst_id :: "u8 \<Rightarrow> CreatorParams \<Rightarrow> CreatorParams" where
  "set_c_inst_id i c =
     CreatorParams i (c_cb c) (c_params c) (c_advertise_data c) (c_scan_response_data c)
       (c_periodic_params c) (c_periodic_data c) (c_timeout_s c) (c_timeout_cb c)"

subsection \<open>Callbacks and the operations that run them\<close>

text \<open>
  \<open>rank\<close> bounds how many callbacks a callback can run before control returns to the
  environment; it is the termination measure of \<open>run_cb\<close>.
\<close>

primrec rank :: "cb \<Rightarrow> nat"
  and rank_sa :: "sa_params \<Rightarrow> nat"
  and rank_c :: "CreatorParams \<Rightarrow> nat" where
  "rank DoNothing = 0"
| "rank DoNothing2 = 0"
| "rank (UserCb n) = 0"
| "rank (BindInstId k i) = rank k + 1"
| "rank (SA_SetParametersCb c) = rank_sa c + 4"
| "rank (SA_SetRandomAddressCb c) = rank_sa c + 3"
| "rank (SA_AdvDataCb c) = rank_sa c + 2"
| "rank (SA_ScanRspCb c) = rank_sa c + 1"
| "rank (SAS_RegisterCb c) = rank_c c + 10"
| "rank (SAS_SetParametersCb c) = rank_c c + 9"
| "rank (SAS_SetRandomAddressCb c) = rank_c c + 8"
| "rank (SAS_AdvDataCb c) = rank_c c + 7"
| "rank (SAS_ScanRspCb c) = rank_c c + 6"
| "rank (SASP_ParametersCb c) = rank_c c + 5"
| "rank (SASP_DataCb c) = rank_c c + 4"
| "rank (SASP_EnableCb c) = rank_c c + 3"
| "rank (SASF_EnableCb c) = rank_c c + 1"
| "rank (EnableWithTimerCb_bound i k ts tk) = rank k + 1"
| "rank (DivideAndSendDataRecursively_bound isFirst i data offset k sender) = rank k + 1"
| "rank (Enable_bound i enable k ts tk) = rank k + 1"
| "rank (ConfigureRpa_lambda p) = 0"
| "rank (RegisterAdvertiser_lambda p k) = rank k + 1"
| "rank (OnRpaGenerationComplete_bound i k) = rank k + 1"
| "rank (btm_ble_adv_raddr_timer_timeout p) = 0"
| "rank_sa (SaParams i k params ad sr ts tk) = rank k"
| "rank_c (CreatorParams i k params ad sr pp pd ts tk) = rank k"

text \<open>
  \<open>run_cb k args\<close> is \<open>k.Run(args)\<close>. The operations of the manager that may run a
  callback before they return are defined together with it. A callback run with a list of
  arguments that does not fit its C++ type leaves the state as it is; the type checker of
  C++ excludes such a run.

  Notes on single equations:
  \<^item> \<open>std::move\<close> of a payload or of a callback out of the context leaves the context
    of the model unchanged: the moved-from member is never read again.
  \<^item> \<open>timeout_s * 1000\<close> in \<open>EnableWithTimerCb\<close> is a product of two \<open>int\<close>,
    converted to the 64-bit \<open>period_ms_t\<close>: a 32-bit product, sign-extended.
  \<^item> In \<open>DivideAndSendDataRecursively\<close>, \<open>offset\<close> is a natural number: it starts at
    0 and grows by \<open>length\<close>, which is at most \<open>dataSize - offset\<close>.
\<close>

function
  run_cb :: "cb \<Rightarrow> u8 list \<Rightarrow> manager \<Rightarrow> manager" and
  Enable :: "u8 \<Rightarrow> bool \<Rightarrow> cb \<Rightarrow> c_int \<Rightarrow> cb \<Rightarrow> manager \<Rightarrow> manager" and
  SetParameters :: "u8 \<Rightarrow> tBTM_BLE_ADV_PARAMS \<Rightarrow> cb \<Rightarrow> manager \<Rightarrow> manager" and
  SetData :: "u8 \<Rightarrow> bool \<Rightarrow> u8 list \<Rightarrow> cb \<Rightarrow> manager \<Rightarrow> manager" and
  SetPeriodicAdvertisingData :: "u8 \<Rightarrow> u8 list \<Rightarrow> cb \<Rightarrow> manager \<Rightarrow> manager" and
  DivideAndSendData :: "u8 \<Rightarrow> u8 list \<Rightarrow> cb \<Rightarrow> DataSender \<Rightarrow> manager \<Rightarrow> manager" and
  DivideAndSendDataRecursively ::
    "bool \<Rightarrow> u8 \<Rightarrow> u8 list \<Rightarrow> nat \<Rightarrow> cb \<Rightarrow> DataSender \<Rightarrow> u8 \<Rightarrow> manager \<Rightarrow> manager" and
  StartAdvertisingSetFinish :: "CreatorParams \<Rightarrow> manager \<Rightarrow> manager"
where
  "run_cb DoNothing args st = st"
| "run_cb DoNothing2 args st = st"
| "run_cb (UserCb n) args st = log_event (CbRun n args) st"
| "run_cb (BindInstId k i) args st =
     (case args of [status] \<Rightarrow> run_cb k [i, status] st | _ \<Rightarrow> st)"
| "run_cb (SA_SetParametersCb c) args st =
     (case args of
        [status, tx_power'] \<Rightarrow>
          if status \<noteq> 0 then run_cb (sa_cb c) [status] st
          else if \<not> unat (sa_inst_id c) < length (adv_inst st) then set_fault OutOfBounds st
          else
            let st1 = upd_inst (unat (sa_inst_id c)) (\<lambda>p. p\<lparr>tx_power := tx_power'\<rparr>) st;
                rpa = own_address (adv_inst st1 ! unat (sa_inst_id c))
            in hci_send (HciSetRandomAddress (sa_inst_id c) rpa) (SA_SetRandomAddressCb c) st1
      | _ \<Rightarrow> st)"
| "run_cb (SA_SetRandomAddressCb c) args st =
     (case args of
        [status] \<Rightarrow>
          if status \<noteq> 0 then run_cb (sa_cb c) [status] st
          else SetData (sa_inst_id c) False (sa_advertise_data c) (SA_AdvDataCb c) st
      | _ \<Rightarrow> st)"
| "run_cb (SA_AdvDataCb c) args st =
     (case args of
        [status] \<Rightarrow>
          if status \<noteq> 0 then run_cb (sa_cb c) [status] st
          else SetData (sa_inst_id c) True (sa_scan_response_data c) (SA_ScanRspCb c) st
      | _ \<Rightarrow> st)"
| "run_cb (SA_ScanRspCb c) args st =
     (case args of
        [status] \<Rightarrow>
          if status \<noteq> 0 then run_cb (sa_cb c) [status] st
          else Enable (sa_inst_id c) True (sa_cb c) (sa_timeout_s c) (sa_timeout_cb c) st
      | _ \<Rightarrow> st)"
| "run_cb (SAS_RegisterCb c) args st =
     (case args of
        [advertiser_id, status] \<Rightarrow>
          if status \<noteq> 0 then run_cb (c_cb c) [0, 0, status] st
          else
            let c1 = set_c_inst_id advertiser_id c
            in SetParameters (c_inst_id c1) (c_params c1) (SAS_SetParametersCb c1) st
      | _ \<Rightarrow> st)"
| "run_cb (SAS_SetParametersCb c) args st =
     (case args of
        [status, tx_power'] \<Rightarrow>
          if status \<noteq> 0 then run_cb (c_cb c) [0, 0, status] (Unregister (c_inst_id c) st)
          else if \<not> unat (c_inst_id c) < length (adv_inst st) then set_fault OutOfBounds st
          else
            let st1 = upd_inst (unat (c_inst_id c)) (\<lambda>p. p\<lparr>tx_power := tx_power'\<rparr>) st;
                rpa = own_address (adv_inst st1 ! unat (c_inst_id c))
            in hci_send (HciSetRandomAddress (c_inst_id c) rpa) (SAS_SetRandomAddressCb c) st1
      | _ \<Rightarrow> st)"
| "run_cb (SAS_SetRandomAddressCb c) args st =
     (case args of
        [status] \<Rightarrow>
          if status \<noteq> 0 then run_cb (c_cb c) [0, 0, status] (Unregister (c_inst_id c) st)
          else SetData (c_inst_id c) False (c_advertise_data c) (SAS_AdvDataCb c) st
      | _ \<Rightarrow> st)"
| "run_cb (SAS_AdvDataCb c) args st =
     (case args of
        [status] \<Rightarrow>
          if status \<noteq> 0 then run_cb (c_cb c) [0, 0, status] (Unregister (c_inst_id c) st)
          else SetData (c_inst_id c) True (c_scan_response_data c) (SAS_ScanRspCb c) st
      | _ \<Rightarrow> st)"
| "run_cb (SAS_ScanRspCb c) args st =
     (case args of
        [status] \<Rightarrow>
          if status \<noteq> 0 then run_cb (c_cb c) [0, 0, status] (Unregister (c_inst_id c) st)
          else if pp_enable (c_periodic_params c) then StartAdvertisingSetPeriodicPart c st
          else StartAdvertisingSetFinish c st
      | _ \<Rightarrow> st)"
| "run_cb (SASP_ParametersCb c) args st =
     (case args of
        [status] \<Rightarrow>
          if status \<noteq> 0 then run_cb (c_cb c) [0, 0, status] (Unregister (c_inst_id c) st)
          else SetPeriodicAdvertisingData (c_inst_id c) (c_periodic_data c) (SASP_DataCb c) st
      | _ \<Rightarrow> st)"
| "run_cb (SASP_DataCb c) args st =
     (case args of
        [status] \<Rightarrow>
          if status \<noteq> 0 then run_cb (c_cb c) [0, 0, status] (Unregister (c_inst_id c) st)
          else SetPeriodicAdvertisingEnable (c_inst_id c) 1 (SASP_EnableCb c) st
      | _ \<Rightarrow> st)"
| "run_cb (SASP_EnableCb c) args st =
     (case args of
        [status] \<Rightarrow>
          if status \<noteq> 0 then run_cb (c_cb c) [0, 0, status] (Unregister (c_inst_id c) st)
          else StartAdvertisingSetFinish c st
      | _ \<Rightarrow> st)"
| "run_cb (SASF_EnableCb c) args st =
     (case args of
        [status] \<Rightarrow>
          if status \<noteq> 0 then run_cb (c_cb c) [0, 0, status] (Unregister (c_inst_id c) st)
          else if \<not> unat (c_inst_id c) < length (adv_inst st) then set_fault OutOfBounds st
          else run_cb (c_cb c)
                 [c_inst_id c, tx_power (adv_inst st ! unat (c_inst_id c)), status] st
      | _ \<Rightarrow> st)"
| "run_cb (EnableWithTimerCb_bound i enable_cb timeout_s' timeout_cb) args st =
     (case args of
        [status] \<Rightarrow>
          let st1 = run_cb enable_cb [status] st
          in if fault st1 \<noteq> None then st1
             else if \<not> unat i < length (adv_inst st1) then set_fault OutOfBounds st1
             else
               let st2 = upd_inst (unat i) (\<lambda>p. p\<lparr>timeout_s := timeout_s'\<rparr>) st1;
                   h = length (alarms st2);
                   st3 = upd_inst (unat i) (\<lambda>p. p\<lparr>timeout_timer := Some h\<rparr>) (alarm_new False st2)
               in alarm_set_on_queue h (scast (timeout_s' * 1000))
                    (Enable_bound i False timeout_cb 0 DoNothing) st3
      | _ \<Rightarrow> st)"
| "run_cb (DivideAndSendDataRecursively_bound isFirst i data offset done_cb sender) args st =
     (case args of
        [status] \<Rightarrow> DivideAndSendDataRecursively isFirst i data offset done_cb sender status st
      | _ \<Rightarrow> st)"
| "run_cb (Enable_bound i enable k timeout_s' timeout_cb) args st =
     (case args of [] \<Rightarrow> Enable i enable k timeout_s' timeout_cb st | _ \<Rightarrow> st)"
| "run_cb (ConfigureRpa_lambda p_inst) args st =
     (case args of
        [] \<Rightarrow>
          if \<not> p_inst < length (adv_inst st) then set_fault OutOfBounds st
          else hci_send (HciSetRandomAddress (inst_id (adv_inst st ! p_inst))
                 (own_address (adv_inst st ! p_inst))) DoNothing st
      | _ \<Rightarrow> st)"
| "run_cb (RegisterAdvertiser_lambda p_inst k) args st =
     (case args of
        [] \<Rightarrow>
          if \<not> p_inst < length (adv_inst st) then set_fault OutOfBounds st
          else
            let st1 = alarm_set_on_queue (adv_raddr_timer (adv_inst st ! p_inst))
                        (BTM_BLE_PRIVATE_ADDR_INT_MS (plat st))
                        (btm_ble_adv_raddr_timer_timeout p_inst) st
            in if fault st1 \<noteq> None then st1
               else run_cb k [inst_id (adv_inst st1 ! p_inst), BTM_BLE_MULTI_ADV_SUCCESS] st1
      | _ \<Rightarrow> st)"
| "run_cb (OnRpaGenerationComplete_bound i k) args st =
     (if length args \<noteq> 8 then st
      else
        let st1 = OnRpaGenerationComplete_store i args st
        in if fault st1 \<noteq> None then st1 else run_cb k [] st1)"
| "run_cb (btm_ble_adv_raddr_timer_timeout p_inst) args st =
     (case args of [] \<Rightarrow> ConfigureRpa p_inst st | _ \<Rightarrow> st)"
| "Enable i enable k timeout_s' timeout_cb st =
     (if i \<ge> inst_count st then st
      else if \<not> unat i < length (adv_inst st) then set_fault OutOfBounds st
      else
        let p_inst = adv_inst st ! unat i
        in if \<not> in_use p_inst then run_cb k [BTM_BLE_MULTI_ADV_FAILURE (plat st)] st
           else if enable \<and> timeout_s' \<noteq> 0 then
             hci_send (HciEnable enable (inst_id p_inst) 0x0000 0x00)
               (EnableWithTimerCb_bound i k timeout_s' timeout_cb) st
           else
             let st1 = (case timeout_timer p_inst of
                          None \<Rightarrow> st
                        | Some h \<Rightarrow>
                            upd_inst (unat i) (\<lambda>p. p\<lparr>timeout_timer := None\<rparr>)
                              (alarm_free h (alarm_cancel h st)))
             in if fault st1 \<noteq> None then st1
                else hci_send (HciEnable enable (inst_id p_inst) 0x0000 0x00) k st1)"
| "SetParameters i p_params k st =
     (if i \<ge> inst_count st then st
      else if \<not> unat i < length (adv_inst st) then set_fault OutOfBounds st
      else if \<not> in_use (adv_inst st ! unat i)
      then run_cb k [BTM_BLE_MULTI_ADV_FAILURE (plat st), 0] st
      else
        let st1 = upd_inst (unat i)
                    (\<lambda>p. p\<lparr>advertising_event_properties :=
                              ucast (p_advertising_event_properties p_params)\<rparr>) st;
            st2 = upd_inst (unat i) (\<lambda>p. p\<lparr>tx_power := p_tx_power p_params\<rparr>) st1;
            p_inst = adv_inst st2 ! unat i;
            peer_address = [0, 0, 0, 0, 0, 0]
        in hci_send
             (HciSetParameters (inst_id p_inst) (p_advertising_event_properties p_params)
                (p_adv_int_min p_params) (p_adv_int_max p_params) (p_channel_map p_params)
                (own_address_type p_inst) (own_address p_inst) 0x00 peer_address
                (p_adv_filter_policy p_params) (tx_power p_inst)
                (p_primary_advertising_phy p_params) 0x01
                (p_secondary_advertising_phy p_params) 0x01
                (p_scan_request_notification_enable p_params)) k st2)"
| "SetData i is_scan_rsp data k st =
     (if i \<ge> inst_count st then st
      else if \<not> unat i < length (adv_inst st) then set_fault OutOfBounds st
      else
        case SetData_prepare (adv_inst st ! unat i) is_scan_rsp data of
          None \<Rightarrow> set_fault OutOfBounds st
        | Some data' \<Rightarrow> DivideAndSendData i data' k (SetDataAdvDataSender is_scan_rsp) st)"
| "SetPeriodicAdvertisingData i data k st =
     DivideAndSendData i data k HciSetPeriodicAdvertisingDataSender st"
| "DivideAndSendData i data done_cb sender st =
     DivideAndSendDataRecursively True i data 0 done_cb sender 0 st"
| "DivideAndSendDataRecursively isFirst i data offset done_cb sender status st =
     (let dataSize = length data
      in if status \<noteq> 0 \<or> (\<not> isFirst \<and> offset = dataSize) then run_cb done_cb [status] st
         else
           let moreThanOnePacket = (int dataSize - int offset > int ADV_DATA_LEN_MAX);
               operation = (if isFirst then (if moreThanOnePacket then FIRST else COMPLETE)
                            else (if moreThanOnePacket then INTERMEDIATE else LAST));
               len = (if moreThanOnePacket then ADV_DATA_LEN_MAX else dataSize - offset);
               newOffset = offset + len
           in run_sender sender i operation (of_nat len) (take len (drop offset data))
                (DivideAndSendDataRecursively_bound False i data newOffset done_cb sender) st)"
| "StartAdvertisingSetFinish c st =
     Enable (c_inst_id c) True (SASF_EnableCb c) (c_timeout_s c)
       (BindInstId (c_timeout_cb c) (c_inst_id c)) st"
  by pat_completeness auto


termination
proof -
  have set_id: "rank_c (set_c_inst_id i c) = rank_c c" for i c
    by (cases c) (simp add: set_c_inst_id_def)
  have sa: "rank (sa_cb c) = rank_sa c" for c
    by (cases c) simp
  have cp: "rank (c_cb c) = rank_c c" for c
    by (cases c) simp
  show ?thesis
    by (relation "measure (\<lambda>x. case x of
         Inl (Inl (Inl (k, args, st))) \<Rightarrow> 4 * rank k
       | Inl (Inl (Inr (i, enable, k, ts, tk, st))) \<Rightarrow> 4 * rank k + 1
       | Inl (Inr (Inl (i, p, k, st))) \<Rightarrow> 4 * rank k + 1
       | Inl (Inr (Inr (i, is_scan_rsp, d, k, st))) \<Rightarrow> 4 * rank k + 3
       | Inr (Inl (Inl (i, d, k, st))) \<Rightarrow> 4 * rank k + 3
       | Inr (Inl (Inr (i, d, k, sender, st))) \<Rightarrow> 4 * rank k + 2
       | Inr (Inr (Inl (isFirst, i, d, offset, k, sender, status, st))) \<Rightarrow> 4 * rank k + 1
       | Inr (Inr (Inr (c, st))) \<Rightarrow> 4 * rank_c c + 6)")
      (simp_all add: set_id sa cp)
qed

declare Enable.simps [simp del] SetParameters.simps [simp del] SetData.simps [simp del]
  SetPeriodicAdvertisingData.simps [simp del] DivideAndSendData.simps [simp del]
  DivideAndSendDataRecursively.simps [simp del] StartAdvertisingSetFinish.simps [simp del]

subsection \<open>The remaining operations\<close>

text \<open>
  \<open>RegisterAdvertiser\<close>: the loop over the table, from slot \<open>i\<close> on. With
  \<open>BLE_PRIVACY_SPT\<close> compiled in and local privacy off, the source marks the slot and
  returns without running the callback.
\<close>

function RegisterAdvertiser_loop :: "nat \<Rightarrow> cb \<Rightarrow> manager \<Rightarrow> manager" where
  "RegisterAdvertiser_loop i k st =
     (if i < unat (inst_count st) then
        if \<not> i < length (adv_inst st) then set_fault OutOfBounds st
        else if in_use (adv_inst st ! i) then RegisterAdvertiser_loop (i + 1) k st
        else
          let st1 = upd_inst i (\<lambda>p. p\<lparr>in_use := True\<rparr>) st
          in if BLE_PRIVACY_SPT (plat st1) then
               if BTM_BleLocalPrivacyEnabled (plat st1) then
                 let st2 = upd_inst i (\<lambda>p. p\<lparr>own_address_type := BLE_ADDR_RANDOM (plat st1)\<rparr>) st1
                 in GenerateRpa (inst_id (adv_inst st2 ! i)) (RegisterAdvertiser_lambda i k) st2
               else st1
             else
               let st2 = upd_inst i (\<lambda>p. p\<lparr>own_address_type := BLE_ADDR_PUBLIC (plat st1)\<rparr>) st1;
                   st3 = upd_inst i (\<lambda>p. p\<lparr>own_address := take 6 (controller_address (plat st2))\<rparr>) st2
               in run_cb k [inst_id (adv_inst st3 ! i), BTM_BLE_MULTI_ADV_SUCCESS] st3
      else run_cb k [0xFF, ADVERTISE_FAILED_TOO_MANY_ADVERTISERS (plat st)] st)"
  by pat_completeness auto
termination
  by (relation "measure (\<lambda>(i, k, st). unat (inst_count st) - i)") auto

declare RegisterAdvertiser_loop.simps [simp del]

definition RegisterAdvertiser :: "cb \<Rightarrow> manager \<Rightarrow> manager" where
  "RegisterAdvertiser k st = RegisterAdvertiser_loop 0 k st"

definition StartAdvertising ::
  "u8 \<Rightarrow> cb \<Rightarrow> tBTM_BLE_ADV_PARAMS \<Rightarrow> u8 list \<Rightarrow> u8 list \<Rightarrow> c_int \<Rightarrow> cb \<Rightarrow> manager \<Rightarrow> manager" where
  "StartAdvertising advertiser_id k params advertise_data scan_response_data timeout_s' timeout_cb st =
     (let c = SaParams advertiser_id k params advertise_data scan_response_data timeout_s' timeout_cb
      in SetParameters (sa_inst_id c) (sa_params c) (SA_SetParametersCb c) st)"

text \<open>\<open>new CreatorParams()\<close> zero-initialises \<open>inst_id\<close>.\<close>

definition StartAdvertisingSet ::
  "cb \<Rightarrow> tBTM_BLE_ADV_PARAMS \<Rightarrow> u8 list \<Rightarrow> u8 list \<Rightarrow> tBLE_PERIODIC_ADV_PARAMS \<Rightarrow> u8 list \<Rightarrow>
   c_int \<Rightarrow> cb \<Rightarrow> manager \<Rightarrow> manager" where
  "StartAdvertisingSet k params advertise_data scan_response_data periodic_params periodic_data
     timeout_s' timeout_cb st =
     (let c = CreatorParams 0 k params advertise_data scan_response_data periodic_params
                periodic_data timeout_s' timeout_cb
      in RegisterAdvertiser (SAS_RegisterCb c) st)"

text \<open>
  \<open>OnAdvertisingSetTerminated\<close>: \<open>p_inst\<close> is \<open>&adv_inst[advertising_handle]\<close>, read
  at \<open>p_inst->in_use\<close> on every path.
\<close>

definition OnAdvertisingSetTerminated :: "u8 \<Rightarrow> u8 \<Rightarrow> u16 \<Rightarrow> u8 \<Rightarrow> manager \<Rightarrow> manager" where
  "OnAdvertisingSetTerminated status advertising_handle connection_handle
     num_completed_extended_adv_events st =
     (if \<not> unat advertising_handle < length (adv_inst st) then set_fault OutOfBounds st
      else
        let p_inst = adv_inst st ! unat advertising_handle;
            st1 = (if BLE_PRIVACY_SPT (plat st) \<and> BTM_BleLocalPrivacyEnabled (plat st) \<and>
                      advertising_handle \<le> BTM_BLE_MULTI_ADV_MAX (plat st)
                   then log_event (AclUpdateConnAddr connection_handle (own_address p_inst)) st
                   else st)
        in if in_use p_inst = True then
             if (advertising_event_properties p_inst AND 0x0C) = 0
             then hci_send (HciEnable True advertising_handle 0x00 0x00) DoNothing st1
             else upd_inst (unat advertising_handle) (\<lambda>p. p\<lparr>in_use := False\<rparr>) st1
           else st1)"

subsection \<open>Events\<close>

text \<open>
  The environment completes the oldest outstanding HCI command with a status (and, for
  \<open>SetParameters\<close>, the granted TX power), delivers random bytes to the oldest waiting
  address request, or fires an armed alarm. A one-shot alarm is idle after it fired.
\<close>

fun is_HciSetParameters :: "hci_cmd \<Rightarrow> bool" where
  "is_HciSetParameters (HciSetParameters a b c d e f g h i j k l m n p q) = True"
| "is_HciSetParameters _ = False"

definition hci_complete :: "u8 \<Rightarrow> u8 \<Rightarrow> manager \<Rightarrow> manager" where
  "hci_complete status txp st =
     (case hci_pending st of
        [] \<Rightarrow> st
      | (cmd, k) # rest \<Rightarrow>
          run_cb k (if is_HciSetParameters cmd then [status, txp] else [status])
            (st\<lparr>hci_pending := rest\<rparr>))"

definition rpa_complete :: "u8 list \<Rightarrow> manager \<Rightarrow> manager" where
  "rpa_complete rand st =
     (case rpa_pending st of
        [] \<Rightarrow> st
      | k # rest \<Rightarrow> if length rand \<noteq> 8 then st else run_cb k rand (st\<lparr>rpa_pending := rest\<rparr>))"

definition alarm_fire :: "nat \<Rightarrow> manager \<Rightarrow> manager" where
  "alarm_fire h st =
     (if \<not> alarm_live h st then st
      else
        case a_armed (alarms st ! h) of
          None \<Rightarrow> st
        | Some (interval_ms, k) \<Rightarrow>
            run_cb k []
              (if a_periodic (alarms st ! h) then st
               else st\<lparr>alarms := (alarms st)[h := (alarms st ! h)\<lparr>a_armed := None\<rparr>]\<rparr>))"

datatype input =
    CallRegisterAdvertiser cb
  | CallUnregister u8
  | CallSetParameters u8 tBTM_BLE_ADV_PARAMS cb
  | CallSetData u8 bool "u8 list" cb
  | CallEnable u8 bool cb c_int cb
  | CallSetPeriodicAdvertisingParameters u8 tBLE_PERIODIC_ADV_PARAMS cb
  | CallSetPeriodicAdvertisingData u8 "u8 list" cb
  | CallSetPeriodicAdvertisingEnable u8 u8 cb
  | CallStartAdvertising u8 cb tBTM_BLE_ADV_PARAMS "u8 list" "u8 list" c_int cb
  | CallStartAdvertisingSet cb tBTM_BLE_ADV_PARAMS "u8 list" "u8 list"
      tBLE_PERIODIC_ADV_PARAMS "u8 list" c_int cb
  | HciComplete u8 u8
  | RpaComplete "u8 list"
  | AlarmFire nat
  | AdvertisingSetTerminated u8 u8 u16 u8

fun dispatch :: "input \<Rightarrow> manager \<Rightarrow> manager" where
  "dispatch (CallRegisterAdvertiser k) st = RegisterAdvertiser k st"
| "dispatch (CallUnregister i) st = Unregister i st"
| "dispatch (CallSetParameters i p k) st = SetParameters i p k st"
| "dispatch (CallSetData i is_scan_rsp data k) st = SetData i is_scan_rsp data k st"
| "dispatch (CallEnable i enable k ts tk) st = Enable i enable k ts tk st"
| "dispatch (CallSetPeriodicAdvertisingParameters i p k) st = SetPeriodicAdvertisingParameters i p k st"
| "dispatch (CallSetPeriodicAdvertisingData i data k) st = SetPeriodicAdvertisingData i data k st"
| "dispatch (CallSetPeriodicAdvertisingEnable i enable k) st = SetPeriodicAdvertisingEnable i enable k st"
| "dispatch (CallStartAdvertising i k p ad sr ts tk) st = StartAdvertising i k p ad sr ts tk st"
| "dispatch (CallStartAdvertisingSet k p ad sr pp pd ts tk) st =
     StartAdvertisingSet k p ad sr pp pd ts tk st"
| "dispatch (HciComplete status txp) st = hci_complete status txp st"
| "dispatch (RpaComplete rand) st = rpa_complete rand st"
| "dispatch (AlarmFire h) st = alarm_fire h st"
| "dispatch (AdvertisingSetTerminated status h ch n) st = OnAdvertisingSetTerminated status h ch n st"

text \<open>One event of the dispatch loop; a program that has stopped takes no further event.\<close>

definition step :: "input \<Rightarrow> manager \<Rightarrow> manager" where
  "step inp st = (if fault st \<noteq> None then st else dispatch inp st)"

definition run :: "input list \<Rightarrow> manager \<Rightarrow> manager" where
  "run inps st = fold step inps st"

text \<open>The manager after its constructor and \<open>ReadInstanceCountCb\<close>.\<close>

definition init :: "platform \<Rightarrow> u8 \<Rightarrow> manager" where
  "init pl instance_count =
     ReadInstanceCountCb instance_count
       \<lparr>plat = pl, adv_inst = [], inst_count = 0, alarms = [], hci_pending = [],
        rpa_pending = [], trace = [], fault = None\<rparr>"

section \<open>Definitions used in the statements\<close>

subsection \<open>The fragmenter, chunk by chunk\<close>

text \<open>
  The calls of the sender that \<open>DivideAndSendDataRecursively\<close> makes when every
  command is acknowledged with status 0: each chunk is (operation, length, bytes), as
  passed to the sender. The test \<open>offset \<ge> dataSize\<close> stands for the source's
  \<open>offset == dataSize\<close>; the two agree as long as \<open>offset\<close> does not exceed
  \<open>dataSize\<close>, and the lemmas that connect this function with
  \<open>DivideAndSendDataRecursively\<close> assume that.
\<close>

function DivideAndSendData_chunks :: "bool \<Rightarrow> u8 list \<Rightarrow> nat \<Rightarrow> (u8 \<times> u8 \<times> u8 list) list" where
  "DivideAndSendData_chunks isFirst data offset =
     (let dataSize = length data
      in if \<not> isFirst \<and> offset \<ge> dataSize then []
         else
           let moreThanOnePacket = (int dataSize - int offset > int ADV_DATA_LEN_MAX);
               operation = (if isFirst then (if moreThanOnePacket then FIRST else COMPLETE)
                            else (if moreThanOnePacket then INTERMEDIATE else LAST));
               len = (if moreThanOnePacket then ADV_DATA_LEN_MAX else dataSize - offset);
               newOffset = offset + len
           in (operation, of_nat len, take len (drop offset data)) #
              DivideAndSendData_chunks False data newOffset)"
  by pat_completeness auto
termination
  by (relation "measure (\<lambda>(isFirst, data, offset). (if isFirst then 1 else 0) + (length data - offset))")
     (auto simp: ADV_DATA_LEN_MAX_def)

declare DivideAndSendData_chunks.simps [simp del]

fun sender_cmd :: "DataSender \<Rightarrow> u8 \<Rightarrow> u8 \<times> u8 \<times> u8 list \<Rightarrow> hci_cmd" where
  "sender_cmd (SetDataAdvDataSender is_scan_rsp) i (operation, len, chunk) =
     (if is_scan_rsp then HciSetScanResponseData i operation 0x01 len chunk
      else HciSetAdvertisingData i operation 0x01 len chunk)"
| "sender_cmd HciSetPeriodicAdvertisingDataSender i (operation, len, chunk) =
     HciSetPeriodicAdvertisingData i operation len chunk"


definition chunk_bytes :: "u8 \<times> u8 \<times> u8 list \<Rightarrow> u8 list" where
  "chunk_bytes c = snd (snd c)"

text \<open>The length and the chunk that one call of \<open>DivideAndSendDataRecursively\<close> sends.\<close>

definition next_len :: "u8 list \<Rightarrow> nat \<Rightarrow> nat" where
  "next_len data offset =
     (if int (length data) - int offset > int ADV_DATA_LEN_MAX
      then ADV_DATA_LEN_MAX else length data - offset)"

definition next_chunk :: "bool \<Rightarrow> u8 list \<Rightarrow> nat \<Rightarrow> u8 \<times> u8 \<times> u8 list" where
  "next_chunk isFirst data offset =
     (let moreThanOnePacket = (int (length data) - int offset > int ADV_DATA_LEN_MAX)
      in ((if isFirst then (if moreThanOnePacket then FIRST else COMPLETE)
           else (if moreThanOnePacket then INTERMEDIATE else LAST)),
          of_nat (next_len data offset), take (next_len data offset) (drop offset data)))"


subsection \<open>Driving the manager\<close>

text \<open>
  \<open>drive cs\<close> completes outstanding HCI commands, oldest first, with the statuses (and
  granted TX powers) of \<open>cs\<close>. \<open>add_cmds\<close> appends commands to the trace.
\<close>

definition drive :: "(u8 \<times> u8) list \<Rightarrow> manager \<Rightarrow> manager" where
  "drive cs st = fold (\<lambda>(status, txp). hci_complete status txp) cs st"

definition add_cmds :: "hci_cmd list \<Rightarrow> manager \<Rightarrow> manager" where
  "add_cmds cmds st = st\<lparr>trace := trace st @ map HciCmd cmds\<rparr>"


subsection \<open>An example configuration\<close>

text \<open>
  A controller with three advertising sets, privacy support not compiled in, and an
  encryption function whose output starts with the bytes 1, 2, 3.
\<close>

definition ex_platform :: platform where
  "ex_platform =
     \<lparr>BTM_BLE_MULTI_ADV_FAILURE = 1, ADVERTISE_FAILED_TOO_MANY_ADVERTISERS = 2,
      BLE_ADDR_PUBLIC = 0, BLE_ADDR_RANDOM = 1, BTM_BLE_MULTI_ADV_MAX = 16,
      BTM_BLE_PRIVATE_ADDR_INT_MS = 900000, BLE_PRIVACY_SPT = False,
      BTM_BleLocalPrivacyEnabled = False,
      controller_address = [0xAA, 0xBB, 0xCC, 0xDD, 0xEE, 0xFF],
      BTM_GetDeviceIDRoot = replicate 16 0,
      SMP_Encrypt = (\<lambda>key plain. Some ([0x01, 0x02, 0x03] @ replicate 13 0))\<rparr>"

definition ex_manager :: manager where
  "ex_manager = init ex_platform 3"

definition ex_params :: tBTM_BLE_ADV_PARAMS where
  "ex_params =
     \<lparr>p_advertising_event_properties = 0x13, p_adv_int_min = 160, p_adv_int_max = 160,
      p_channel_map = 7, p_adv_filter_policy = 0, p_tx_power = 0,
      p_primary_advertising_phy = 1, p_secondary_advertising_phy = 1,
      p_scan_request_notification_enable = 0\<rparr>"

definition ex_rand :: "u8 list" where
  "ex_rand = [0x11, 0x22, 0x33, 0x44, 0x55, 0x66, 0x77, 0x88]"

text \<open>
  The same controller with set 0 registered; and with set 0 registered and enabled for 30
  seconds, the enable command acknowledged.
\<close>

definition ex_registered :: manager where
  "ex_registered = run [CallRegisterAdvertiser DoNothing2] ex_manager"

definition ex_enabled :: manager where
  "ex_enabled = run [CallRegisterAdvertiser DoNothing2,
                     CallEnable 0 True (UserCb 7) 30 (UserCb 8), HciComplete 0 0] ex_manager"


text \<open>
  The same controller with set 0 registered and configured as legacy connectable
  (properties 0x13), the parameter command acknowledged.
\<close>

definition ex_legacy :: manager where
  "ex_legacy = run [CallRegisterAdvertiser DoNothing2, CallSetParameters 0 ex_params DoNothing,
                    HciComplete 0 0] ex_manager"

text \<open>The same controller with all three sets registered.\<close>

definition ex_full :: manager where
  "ex_full = run [CallRegisterAdvertiser DoNothing2, CallRegisterAdvertiser DoNothing2,
                  CallRegisterAdvertiser DoNothing2] ex_manager"


subsection \<open>Registration\<close>

text \<open>Slot \<open>i\<close> is the first slot of the table that is not in use.\<close>

definition first_free :: "AdvertisingInstance list \<Rightarrow> nat \<Rightarrow> bool" where
  "first_free tab i = (i < length tab \<and> \<not> in_use (tab ! i) \<and> (\<forall>j < i. in_use (tab ! j)))"

subsection \<open>Advertising data structures\<close>

text \<open>
  An AD structure is a type and a value; on the wire it is the length of type and value,
  the type, the value. \<open>ad_ok\<close>: the length fits a byte and a TX power structure has
  a value byte. \<open>ad_set_tx_power\<close> follows the words of the specification: the first
  value byte of a structure of type 0x0A becomes the TX power.
\<close>

definition ad_bytes :: "u8 \<times> u8 list \<Rightarrow> u8 list" where
  "ad_bytes s = of_nat (length (snd s) + 1) # fst s # snd s"

definition ad_ok :: "u8 \<times> u8 list \<Rightarrow> bool" where
  "ad_ok s = (length (snd s) + 1 < 256 \<and> (fst s = HCI_EIR_TX_POWER_LEVEL_TYPE \<longrightarrow> snd s \<noteq> []))"

definition ad_set_tx_power :: "u8 \<Rightarrow> u8 \<times> u8 list \<Rightarrow> u8 \<times> u8 list" where
  "ad_set_tx_power txp s =
     (if fst s = HCI_EIR_TX_POWER_LEVEL_TYPE then (fst s, txp # tl (snd s)) else s)"

section \<open>The commissioning pipelines\<close>

subsection \<open>What an observer of the HCI layer sees\<close>

text \<open>
  The visible part of a trace: the HCI commands issued and the runs of user callbacks, in
  the order in which they happened.
\<close>

fun is_visible :: "event \<Rightarrow> bool" where
  "is_visible (HciCmd c) = True"
| "is_visible (CbRun n args) = True"
| "is_visible _ = False"

definition visible :: "event list \<Rightarrow> event list" where
  "visible tr = filter is_visible tr"

text \<open>
  \<open>chained vis0 pre cmds Q F st\<close>: the commands \<open>pre\<close> have been issued and
  acknowledged, and from \<open>st\<close> the commands \<open>cmds\<close> are issued one at a time: the
  first of them is the only outstanding command; a completion with a non-zero status
  \<open>s\<close> leads to a state with \<open>F issued s\<close>; a completion with status 0 leads to a
  state chained for the rest. When no command is left, \<open>Q\<close> holds.
\<close>

primrec chained ::
  "event list \<Rightarrow> hci_cmd list \<Rightarrow> hci_cmd list \<Rightarrow> (hci_cmd list \<Rightarrow> manager \<Rightarrow> bool) \<Rightarrow>
   (hci_cmd list \<Rightarrow> u8 \<Rightarrow> manager \<Rightarrow> bool) \<Rightarrow> manager \<Rightarrow> bool" where
  "chained vis0 pre [] Q F st = Q pre st"
| "chained vis0 pre (c # cmds) Q F st =
     (map fst (hci_pending st) = [c] \<and> fault st = None \<and>
      visible (trace st) = vis0 @ map HciCmd (pre @ [c]) \<and>
      (\<forall>s t. s \<noteq> 0 \<longrightarrow> F (pre @ [c]) s (hci_complete s t st)) \<and>
      (\<forall>t. chained vis0 (pre @ [c]) cmds Q F (hci_complete 0 t st)))"

text \<open>
  The same for a whole run, by the number \<open>k\<close> of completions with status 0: after
  \<open>k\<close> of them the only outstanding command is command \<open>k\<close> of the script, and the
  commands issued so far are the first \<open>k + 1\<close> of the script, in its order; a
  non-zero status for that command gives \<open>F\<close>; after as many completions as the
  script is long, \<open>Q\<close> holds. The TX power \<open>txp\<close> is read at the completion of
  \<open>SetParameters\<close> only.
\<close>

definition strictly_ordered ::
  "event list \<Rightarrow> hci_cmd list \<Rightarrow> (hci_cmd list \<Rightarrow> manager \<Rightarrow> bool) \<Rightarrow>
   (hci_cmd list \<Rightarrow> u8 \<Rightarrow> manager \<Rightarrow> bool) \<Rightarrow> u8 \<Rightarrow> manager \<Rightarrow> bool" where
  "strictly_ordered vis0 script Q F txp st0 =
     ((\<forall>k < length script.
         map fst (hci_pending (drive (replicate k (0, txp)) st0)) = [script ! k] \<and>
         fault (drive (replicate k (0, txp)) st0) = None \<and>
         visible (trace (drive (replicate k (0, txp)) st0)) =
           vis0 @ map HciCmd (take (Suc k) script) \<and>
         (\<forall>s t. s \<noteq> 0 \<longrightarrow>
            F (take (Suc k) script) s (drive (replicate k (0, txp) @ [(s, t)]) st0))) \<and>
      Q script (drive (replicate (length script) (0, txp)) st0))"

subsection \<open>The scripts of the two pipelines\<close>

text \<open>
  An instance that the operations on it accept: the identifier is in range and its alarms
  are live.
\<close>

definition inst_ok :: "manager \<Rightarrow> u8 \<Rightarrow> bool" where
  "inst_ok st i =
     (i < inst_count st \<and> unat i < length (adv_inst st) \<and>
      alarm_live (adv_raddr_timer (adv_inst st ! unat i)) st \<and>
      (case timeout_timer (adv_inst st ! unat i) of
         None \<Rightarrow> True
       | Some h \<Rightarrow> alarm_live h st \<and> h \<noteq> adv_raddr_timer (adv_inst st ! unat i)))"

text \<open>
  The command of \<open>SetParameters\<close> for an instance, and the instance after
  \<open>SetParameters\<close> and the store of the granted TX power.
\<close>

definition SetParameters_cmd :: "AdvertisingInstance \<Rightarrow> tBTM_BLE_ADV_PARAMS \<Rightarrow> hci_cmd" where
  "SetParameters_cmd p params =
     HciSetParameters (inst_id p) (p_advertising_event_properties params)
       (p_adv_int_min params) (p_adv_int_max params) (p_channel_map params)
       (own_address_type p) (own_address p) 0x00 [0, 0, 0, 0, 0, 0]
       (p_adv_filter_policy params) (p_tx_power params)
       (p_primary_advertising_phy params) 0x01
       (p_secondary_advertising_phy params) 0x01
       (p_scan_request_notification_enable params)"

definition configured :: "AdvertisingInstance \<Rightarrow> tBTM_BLE_ADV_PARAMS \<Rightarrow> u8 \<Rightarrow> AdvertisingInstance" where
  "configured p params txp =
     p\<lparr>advertising_event_properties := ucast (p_advertising_event_properties params),
       tx_power := txp\<rparr>"

text \<open>The commands that carry one payload, and the commands of the two pipelines in order.\<close>

definition data_cmds :: "DataSender \<Rightarrow> u8 \<Rightarrow> u8 list \<Rightarrow> hci_cmd list" where
  "data_cmds sender i d = map (sender_cmd sender i) (DivideAndSendData_chunks True d 0)"

definition StartAdvertising_script ::
  "AdvertisingInstance \<Rightarrow> u8 \<Rightarrow> tBTM_BLE_ADV_PARAMS \<Rightarrow> u8 list \<Rightarrow> u8 list \<Rightarrow> hci_cmd list" where
  "StartAdvertising_script p i params d1 d2 =
     [SetParameters_cmd p params, HciSetRandomAddress i (own_address p)] @
     data_cmds (SetDataAdvDataSender False) i d1 @ data_cmds (SetDataAdvDataSender True) i d2 @
     [HciEnable True (inst_id p) 0x0000 0x00]"

definition periodic_cmds :: "u8 \<Rightarrow> tBLE_PERIODIC_ADV_PARAMS \<Rightarrow> u8 list \<Rightarrow> hci_cmd list" where
  "periodic_cmds i pp pd =
     (if pp_enable pp then
        [HciSetPeriodicAdvertisingParameters i (pp_min_interval pp) (pp_max_interval pp)
           (pp_periodic_advertising_properties pp)] @
        data_cmds HciSetPeriodicAdvertisingDataSender i pd @
        [HciSetPeriodicAdvertisingEnable 1 i]
      else [])"

definition StartAdvertisingSet_script ::
  "AdvertisingInstance \<Rightarrow> u8 \<Rightarrow> tBTM_BLE_ADV_PARAMS \<Rightarrow> u8 list \<Rightarrow> u8 list \<Rightarrow>
   tBLE_PERIODIC_ADV_PARAMS \<Rightarrow> u8 list \<Rightarrow> hci_cmd list" where
  "StartAdvertisingSet_script p i params d1 d2 pp pd =
     [SetParameters_cmd p params, HciSetRandomAddress i (own_address p)] @
     data_cmds (SetDataAdvDataSender False) i d1 @ data_cmds (SetDataAdvDataSender True) i d2 @
     periodic_cmds i pp pd @ [HciEnable True (inst_id p) 0x0000 0x00]"

text \<open>
  How a pipeline ends. \<open>reported\<close>: after the commands \<open>issued\<close> the user callback
  ran with \<open>args\<close> and no command is outstanding. \<open>completed\<close>: the same, with
  the \<open>in_use\<close> flags of the table. \<open>compensated\<close>: after the commands
  \<open>issued\<close> the command of \<open>Unregister\<close> was issued, then the user callback ran
  with \<open>(0, 0, s)\<close>; the command of \<open>Unregister\<close> is the only outstanding one; the
  table is \<open>tab\<close> except at the instance, which is not in use and has the address of
  its entry in \<open>tab\<close> and the event properties \<open>props\<close>.
\<close>

definition reported :: "event list \<Rightarrow> nat \<Rightarrow> hci_cmd list \<Rightarrow> u8 list \<Rightarrow> manager \<Rightarrow> bool" where
  "reported vis0 n issued args st =
     (visible (trace st) = vis0 @ map HciCmd issued @ [CbRun n args] \<and>
      hci_pending st = [] \<and> fault st = None)"

definition completed ::
  "event list \<Rightarrow> bool list \<Rightarrow> nat \<Rightarrow> u8 list \<Rightarrow> hci_cmd list \<Rightarrow> manager \<Rightarrow> bool" where
  "completed vis0 flags n args issued st =
     (visible (trace st) = vis0 @ map HciCmd issued @ [CbRun n args] \<and>
      hci_pending st = [] \<and> fault st = None \<and> map in_use (adv_inst st) = flags)"

definition compensated ::
  "event list \<Rightarrow> AdvertisingInstance list \<Rightarrow> u8 \<Rightarrow> nat \<Rightarrow> u8 \<Rightarrow> hci_cmd list \<Rightarrow> u8 \<Rightarrow>
   manager \<Rightarrow> bool" where
  "compensated vis0 tab props n i issued s st =
     (visible (trace st) =
        vis0 @ map HciCmd issued @ [HciCmd (HciEnable False i 0x00 0x00), CbRun n [0, 0, s]] \<and>
      map fst (hci_pending st) = [HciEnable False i 0x00 0x00] \<and> fault st = None \<and>
      (adv_inst st)[unat i := tab ! unat i] = tab \<and>
      in_use (adv_inst st ! unat i) = False \<and>
      own_address_type (adv_inst st ! unat i) = own_address_type (tab ! unat i) \<and>
      own_address (adv_inst st ! unat i) = own_address (tab ! unat i) \<and>
      advertising_event_properties (adv_inst st ! unat i) = props)"

text \<open>The part of \<open>EnableWithTimerCb\<close> after the enable callback.\<close>

definition timer_setup :: "u8 \<Rightarrow> c_int \<Rightarrow> cb \<Rightarrow> manager \<Rightarrow> manager" where
  "timer_setup i ts tk st =
     st\<lparr>adv_inst := (adv_inst st)[unat i := (adv_inst st ! unat i)
              \<lparr>timeout_s := ts, timeout_timer := Some (length (alarms st))\<rparr>],
        alarms := alarms st @ [\<lparr>a_periodic = False,
                         a_armed = Some (scast (ts * 1000), Enable_bound i False tk 0 DoNothing),
                         a_freed = False\<rparr>],
        trace := trace st @ [AlarmNew (length (alarms st)),
                       AlarmSet (length (alarms st)) (scast (ts * 1000))]\<rparr>"

text \<open>
  The instance after \<open>RegisterAdvertiser\<close> without privacy support. With privacy
  support compiled in, \<open>RegisterAdvertiser\<close> waits for random bytes;
  \<open>answer_rpa\<close> delivers them.
\<close>

definition registered_public :: "platform \<Rightarrow> AdvertisingInstance \<Rightarrow> AdvertisingInstance" where
  "registered_public pl p =
     p\<lparr>in_use := True, own_address_type := BLE_ADDR_PUBLIC pl,
       own_address := take 6 (controller_address pl)\<rparr>"

definition answer_rpa :: "platform \<Rightarrow> u8 list \<Rightarrow> manager \<Rightarrow> manager" where
  "answer_rpa pl rand st = (if BLE_PRIVACY_SPT pl then rpa_complete rand st else st)"

subsection \<open>Examples for the pipelines\<close>

text \<open>
  Periodic parameters, a payload with one TX power structure, and the example controller
  with privacy support compiled in: with local privacy enabled, and with local privacy
  disabled.
\<close>

definition ex_periodic :: tBLE_PERIODIC_ADV_PARAMS where
  "ex_periodic = \<lparr>pp_enable = True, pp_min_interval = 80, pp_max_interval = 80,
                   pp_periodic_advertising_properties = 0\<rparr>"

definition ex_ad :: "u8 list" where
  "ex_ad = [0x02, 0x0A, 0x00]"

definition ex_private :: manager where
  "ex_private = init (ex_platform\<lparr>BLE_PRIVACY_SPT := True, BTM_BleLocalPrivacyEnabled := True\<rparr>) 3"

definition ex_privacy_off :: manager where
  "ex_privacy_off = init (ex_platform\<lparr>BLE_PRIVACY_SPT := True\<rparr>) 3"


section \<open>Lemmas\<close>

subsection \<open>Fields of the state\<close>

lemma hci_send_fields [simp]:
  "hci_pending (hci_send cmd k st) = hci_pending st @ [(cmd, k)]"
  "fault (hci_send cmd k st) = fault st"
  "alarms (hci_send cmd k st) = alarms st"
  "inst_count (hci_send cmd k st) = inst_count st"
  "plat (hci_send cmd k st) = plat st"
  "rpa_pending (hci_send cmd k st) = rpa_pending st"
  "trace (hci_send cmd k st) = trace st @ [HciCmd cmd]"
  "adv_inst (hci_send cmd k st) = adv_inst st"
  by (simp_all add: hci_send_def)

lemma log_event_fields [simp]:
  "hci_pending (log_event e st) = hci_pending st"
  "fault (log_event e st) = fault st"
  "alarms (log_event e st) = alarms st"
  "inst_count (log_event e st) = inst_count st"
  "plat (log_event e st) = plat st"
  "rpa_pending (log_event e st) = rpa_pending st"
  "trace (log_event e st) = trace st @ [e]"
  "adv_inst (log_event e st) = adv_inst st"
  by (simp_all add: log_event_def)

lemma set_fault_fields [simp]:
  "hci_pending (set_fault f st) = hci_pending st"
  "fault (set_fault f st) = Some f"
  "alarms (set_fault f st) = alarms st"
  "inst_count (set_fault f st) = inst_count st"
  "plat (set_fault f st) = plat st"
  "rpa_pending (set_fault f st) = rpa_pending st"
  "trace (set_fault f st) = trace st"
  "adv_inst (set_fault f st) = adv_inst st"
  by (simp_all add: set_fault_def)

subsection \<open>Driving and the trace\<close>

lemma drive_Nil [simp]: "drive [] st = st"
  by (simp add: drive_def)

lemma drive_Cons [simp]: "drive ((status, txp) # cs) st = drive cs (hci_complete status txp st)"
  by (simp add: drive_def)

lemma add_cmds_Nil [simp]: "add_cmds [] st = st"
  by (simp add: add_cmds_def)

lemma add_cmds_Cons: "add_cmds (c # cmds) st = add_cmds cmds (add_cmds [c] st)"
  by (simp add: add_cmds_def)

lemma add_cmds_fields [simp]:
  "hci_pending (add_cmds cmds st) = hci_pending st"
  "adv_inst (add_cmds cmds st) = adv_inst st"
  "fault (add_cmds cmds st) = fault st"
  "alarms (add_cmds cmds st) = alarms st"
  "inst_count (add_cmds cmds st) = inst_count st"
  "plat (add_cmds cmds st) = plat st"
  "rpa_pending (add_cmds cmds st) = rpa_pending st"
  "trace (add_cmds cmds st) = trace st @ map HciCmd cmds"
  by (simp_all add: add_cmds_def)

lemma sender_cmd_not_params [simp]: "\<not> is_HciSetParameters (sender_cmd sender i c)"
  by (cases sender; cases c) simp_all

lemma run_sender_eq:
  "run_sender sender i operation len chunk k st = hci_send (sender_cmd sender i (operation, len, chunk)) k st"
  by (cases sender) (simp_all add: run_sender_def)

lemma pending_Nil_upd:
  "hci_pending st = [] \<Longrightarrow> st\<lparr>trace := t, hci_pending := []\<rparr> = st\<lparr>trace := t\<rparr>"
  by (cases st) simp

lemma hci_complete_hci_send:
  "hci_pending st = [] \<Longrightarrow>
   hci_complete status txp (hci_send cmd k st) =
     run_cb k (if is_HciSetParameters cmd then [status, txp] else [status]) (add_cmds [cmd] st)"
  by (simp add: hci_complete_def hci_send_def add_cmds_def pending_Nil_upd)

lemma DASR_done:
  "status \<noteq> 0 \<or> (\<not> isFirst \<and> offset = length data) \<Longrightarrow>
   DivideAndSendDataRecursively isFirst i data offset done_cb sender status st = run_cb done_cb [status] st"
  by (simp add: DivideAndSendDataRecursively.simps)


subsection \<open>The fragmenter\<close>

lemma next_len_le: "offset \<le> length data \<Longrightarrow> offset + next_len data offset \<le> length data"
  by (auto simp: next_len_def)

lemma chunks_Nil:
  "\<not> isFirst \<Longrightarrow> offset \<ge> length data \<Longrightarrow> DivideAndSendData_chunks isFirst data offset = []"
  by (subst DivideAndSendData_chunks.simps) simp

lemma chunks_Cons:
  "isFirst \<or> offset < length data \<Longrightarrow>
   DivideAndSendData_chunks isFirst data offset =
     next_chunk isFirst data offset #
     DivideAndSendData_chunks False data (offset + next_len data offset)"
  by (subst DivideAndSendData_chunks.simps) (auto simp add: Let_def next_len_def next_chunk_def)

lemma DASR_send:
  "isFirst \<or> offset < length data \<Longrightarrow>
   DivideAndSendDataRecursively isFirst i data offset done_cb sender 0 st =
     hci_send (sender_cmd sender i (next_chunk isFirst data offset))
       (DivideAndSendDataRecursively_bound False i data (offset + next_len data offset) done_cb sender) st"
  by (subst DivideAndSendDataRecursively.simps)
     (auto simp add: Let_def next_len_def next_chunk_def run_sender_eq)

text \<open>All chunks acknowledged with status 0: the done callback runs with 0.\<close>

lemma DASR_drive_success:
  "n = length (DivideAndSendData_chunks isFirst data offset) \<Longrightarrow>
   hci_pending st = [] \<Longrightarrow> offset \<le> length data \<Longrightarrow> n \<le> length cs \<Longrightarrow>
   \<forall>c \<in> set (take n cs). fst c = 0 \<Longrightarrow>
   drive cs (DivideAndSendDataRecursively isFirst i data offset done_cb sender 0 st) =
   drive (drop n cs)
     (run_cb done_cb [0]
        (add_cmds (map (sender_cmd sender i) (DivideAndSendData_chunks isFirst data offset)) st))"
proof (induction n arbitrary: isFirst offset cs st)
  case 0
  have "\<not> (isFirst \<or> offset < length data)"
  proof
    assume a: "isFirst \<or> offset < length data"
    from chunks_Cons[OF a] "0.prems"(1) show False by simp
  qed
  with "0.prems" have "\<not> isFirst" "offset = length data" by auto
  with 0 show ?case by (simp add: DASR_done)
next
  case (Suc n)
  then have ne: "isFirst \<or> offset < length data"
    using chunks_Nil[of isFirst data offset] by (cases "isFirst \<or> offset < length data") auto
  note unf = chunks_Cons[OF ne]
  from Suc.prems(4) obtain status txp cs' where cs: "cs = (status, txp) # cs'"
    by (cases cs) auto
  from Suc.prems(5) cs have z: "status = 0" and zs: "\<forall>c \<in> set (take n cs'). fst c = 0"
    by simp_all
  from Suc.prems(4) cs have len: "n \<le> length cs'" by simp
  let ?off = "offset + next_len data offset"
  let ?st = "add_cmds [sender_cmd sender i (next_chunk isFirst data offset)] st"
  have n: "n = length (DivideAndSendData_chunks False data ?off)"
    using Suc.prems(1) unf by simp
  have IH: "drive cs' (DivideAndSendDataRecursively False i data ?off done_cb sender 0 ?st) =
      drive (drop n cs')
       (run_cb done_cb [0] (add_cmds (map (sender_cmd sender i) (DivideAndSendData_chunks False data ?off)) ?st))"
    using Suc.prems(2,3) zs len by (intro Suc.IH[OF n]) (simp_all add: next_len_le)
  show ?case
    using IH z Suc.prems(2)
    by (simp add: cs unf DASR_send[OF ne] hci_complete_hci_send add_cmds_def)
qed


lemma chunks_concat:
  "offset \<le> length data \<Longrightarrow>
   concat (map (\<lambda>c. snd (snd c)) (DivideAndSendData_chunks isFirst data offset)) = drop offset data"
proof (induction isFirst data offset rule: DivideAndSendData_chunks.induct)
  case (1 isFirst data offset)
  show ?case
  proof (cases "\<not> isFirst \<and> offset \<ge> length data")
    case True
    with "1.prems" show ?thesis
      by (subst DivideAndSendData_chunks.simps) simp
  next
    case False
    define len where "len = (if int (length data) - int offset > int ADV_DATA_LEN_MAX
                             then ADV_DATA_LEN_MAX else length data - offset)"
    define op where "op = (if isFirst then (if int (length data) - int offset > int ADV_DATA_LEN_MAX then FIRST else COMPLETE)
                            else (if int (length data) - int offset > int ADV_DATA_LEN_MAX then INTERMEDIATE else LAST))"
    have le: "offset + len \<le> length data"
      using "1.prems" by (auto simp: len_def)
    note IH = "1.IH"[OF refl False refl refl refl refl, folded len_def, OF le]
    have unf: "DivideAndSendData_chunks isFirst data offset =
       (op, of_nat len, take len (drop offset data)) # DivideAndSendData_chunks False data (offset + len)"
      using False by (subst DivideAndSendData_chunks.simps) (simp add: Let_def len_def op_def)
    have "concat (map (\<lambda>c. snd (snd c)) (DivideAndSendData_chunks isFirst data offset))
          = take len (drop offset data) @ drop (offset + len) data"
      unfolding unf using IH by simp
    also have "\<dots> = drop offset data"
      by (metis add.commute append_take_drop_id drop_drop)
    finally show ?thesis .
  qed
qed

lemma chunks_small:
  "length data \<le> 251 \<Longrightarrow>
   DivideAndSendData_chunks True data 0 = [(COMPLETE, of_nat (length data), data)]"
  by (subst DivideAndSendData_chunks.simps, subst DivideAndSendData_chunks.simps)
     (simp add: ADV_DATA_LEN_MAX_def Let_def)

lemma chunks_rest_tags:
  "offset < length data \<Longrightarrow>
   \<exists>m. map fst (DivideAndSendData_chunks False data offset) = replicate m INTERMEDIATE @ [LAST]"
proof (induction "False" data offset rule: DivideAndSendData_chunks.induct)
  case (1 data offset)
  show ?case
  proof (cases "int (length data) - int offset > int ADV_DATA_LEN_MAX")
    case True
    then have lt: "offset + ADV_DATA_LEN_MAX < length data" by simp
    from "1.hyps"[OF refl _ refl refl refl refl] "1.prems" True lt
    obtain m where m: "map fst (DivideAndSendData_chunks False data (offset + ADV_DATA_LEN_MAX))
                       = replicate m INTERMEDIATE @ [LAST]"
      by auto
    have "map fst (DivideAndSendData_chunks False data offset)
          = replicate (Suc m) INTERMEDIATE @ [LAST]"
      using True "1.prems" m
      by (subst DivideAndSendData_chunks.simps) (simp add: Let_def)
    then show ?thesis by blast
  next
    case False
    have "DivideAndSendData_chunks False data (offset + (length data - offset)) = []"
      using "1.prems" by (subst DivideAndSendData_chunks.simps) simp
    then have "map fst (DivideAndSendData_chunks False data offset) = replicate 0 INTERMEDIATE @ [LAST]"
      using False "1.prems"
      by (subst DivideAndSendData_chunks.simps) (simp add: Let_def)
    then show ?thesis by blast
  qed
qed

lemma chunks_large_tags:
  assumes "length data > 251"
  shows "\<exists>m. map fst (DivideAndSendData_chunks True data 0) = FIRST # replicate m INTERMEDIATE @ [LAST]"
proof -
  from assms have "0 + ADV_DATA_LEN_MAX < length data" by (simp add: ADV_DATA_LEN_MAX_def)
  then obtain m where "map fst (DivideAndSendData_chunks False data (0 + ADV_DATA_LEN_MAX))
      = replicate m INTERMEDIATE @ [LAST]"
    using chunks_rest_tags by blast
  moreover have "DivideAndSendData_chunks True data 0 =
      (FIRST, of_nat ADV_DATA_LEN_MAX, take ADV_DATA_LEN_MAX (drop 0 data)) #
      DivideAndSendData_chunks False data (0 + ADV_DATA_LEN_MAX)"
    using assms by (subst DivideAndSendData_chunks.simps) (simp add: Let_def ADV_DATA_LEN_MAX_def)
  ultimately show ?thesis by auto
qed

lemma chunks_lengths:
  "offset \<le> length data \<Longrightarrow>
   (\<forall>c \<in> set (butlast (DivideAndSendData_chunks isFirst data offset)). length (snd (snd c)) = 251) \<and>
   (\<forall>c \<in> set (DivideAndSendData_chunks isFirst data offset).
       length (snd (snd c)) \<le> 251 \<and> unat (fst (snd c)) = length (snd (snd c)))"
proof (induction isFirst data offset rule: DivideAndSendData_chunks.induct)
  case (1 isFirst data offset)
  show ?case
  proof (cases "\<not> isFirst \<and> offset \<ge> length data")
    case True
    then show ?thesis by (subst DivideAndSendData_chunks.simps, subst DivideAndSendData_chunks.simps) simp
  next
    case False
    define len where "len = (if int (length data) - int offset > int ADV_DATA_LEN_MAX
                             then ADV_DATA_LEN_MAX else length data - offset)"
    have le: "offset + len \<le> length data" and len251: "len \<le> 251"
      using "1.prems" by (auto simp: len_def ADV_DATA_LEN_MAX_def)
    note IH = "1.IH"[OF refl False refl refl refl refl, folded len_def, OF le]
    define op where "op = (if isFirst then (if int (length data) - int offset > int ADV_DATA_LEN_MAX then FIRST else COMPLETE)
                            else (if int (length data) - int offset > int ADV_DATA_LEN_MAX then INTERMEDIATE else LAST))"
    have unf: "DivideAndSendData_chunks isFirst data offset =
       (op, of_nat len, take len (drop offset data)) # DivideAndSendData_chunks False data (offset + len)"
      using False by (subst DivideAndSendData_chunks.simps) (simp add: Let_def len_def op_def)
    have hdlen: "length (take len (drop offset data)) = len"
      using le by simp
    have un: "unat (of_nat len :: u8) = len"
      using len251 by (simp add: unat_of_nat)
    have nonlast: "DivideAndSendData_chunks False data (offset + len) \<noteq> [] \<Longrightarrow> len = 251"
    proof -
      assume ne: "DivideAndSendData_chunks False data (offset + len) \<noteq> []"
      have "offset + len < length data"
      proof (rule ccontr)
        assume "\<not> offset + len < length data"
        then have "DivideAndSendData_chunks False data (offset + len) = []"
          by (subst DivideAndSendData_chunks.simps) simp
        with ne show False by simp
      qed
      then show ?thesis by (auto simp: len_def ADV_DATA_LEN_MAX_def split: if_splits)
    qed
    show ?thesis
      unfolding unf using IH hdlen un len251 nonlast by auto
  qed
qed


lemma chunk_bytes_eq: "chunk_bytes = (\<lambda>c. snd (snd c))"
  by (rule ext) (simp add: chunk_bytes_def)

lemma ex_manager_pending: "hci_pending ex_manager = []"
  unfolding ex_manager_def by code_simp

lemma chunks_300: "DivideAndSendData_chunks True (replicate 300 0x41) 0 =
   [(0x01, 251, replicate 251 0x41), (0x02, 49, replicate 49 0x41)]"
  by code_simp

subsection \<open>Registration\<close>

lemma upd_inst_fields [simp]:
  "hci_pending (upd_inst i f st) = hci_pending st"
  "fault (upd_inst i f st) = fault st"
  "alarms (upd_inst i f st) = alarms st"
  "inst_count (upd_inst i f st) = inst_count st"
  "plat (upd_inst i f st) = plat st"
  "rpa_pending (upd_inst i f st) = rpa_pending st"
  "trace (upd_inst i f st) = trace st"
  "adv_inst (upd_inst i f st) = (adv_inst st)[i := f (adv_inst st ! i)]"
  by (simp_all add: upd_inst_def)

lemma Register_loop_skip:
  "i0 \<le> i \<Longrightarrow> i < length (adv_inst st) \<Longrightarrow> length (adv_inst st) = unat (inst_count st) \<Longrightarrow>
   \<forall>j. i0 \<le> j \<and> j < i \<longrightarrow> in_use (adv_inst st ! j) \<Longrightarrow>
   RegisterAdvertiser_loop i0 k st = RegisterAdvertiser_loop i k st"
proof (induction "i - i0" arbitrary: i0)
  case 0
  then show ?case by simp
next
  case (Suc d)
  then have "i0 < i" "in_use (adv_inst st ! i0)" "i0 < length (adv_inst st)" by auto
  then have "RegisterAdvertiser_loop i0 k st = RegisterAdvertiser_loop (i0 + 1) k st"
    using Suc.prems(3) by (subst RegisterAdvertiser_loop.simps) simp
  also have "\<dots> = RegisterAdvertiser_loop i k st"
    using Suc by (intro Suc.hyps(1)) auto
  finally show ?case .
qed

lemma Register_loop_full:
  "length (adv_inst st) = unat (inst_count st) \<Longrightarrow>
   \<forall>j. i0 \<le> j \<and> j < length (adv_inst st) \<longrightarrow> in_use (adv_inst st ! j) \<Longrightarrow>
   RegisterAdvertiser_loop i0 k st =
     run_cb k [0xFF, ADVERTISE_FAILED_TOO_MANY_ADVERTISERS (plat st)] st"
proof (induction "length (adv_inst st) - i0" arbitrary: i0)
  case 0
  then show ?case by (subst RegisterAdvertiser_loop.simps) simp
next
  case (Suc d)
  then have "i0 < length (adv_inst st)" "in_use (adv_inst st ! i0)" by auto
  then have "RegisterAdvertiser_loop i0 k st = RegisterAdvertiser_loop (i0 + 1) k st"
    using Suc.prems(1) by (subst RegisterAdvertiser_loop.simps) simp
  also have "\<dots> = run_cb k [0xFF, ADVERTISE_FAILED_TOO_MANY_ADVERTISERS (plat st)] st"
    using Suc by (intro Suc.hyps(1)) auto
  finally show ?case .
qed

lemma Register_loop_free:
  "i < length (adv_inst st) \<Longrightarrow> length (adv_inst st) = unat (inst_count st) \<Longrightarrow>
   \<not> in_use (adv_inst st ! i) \<Longrightarrow>
   RegisterAdvertiser_loop i k st =
     (let st1 = upd_inst i (\<lambda>p. p\<lparr>in_use := True\<rparr>) st
      in if BLE_PRIVACY_SPT (plat st) then
           if BTM_BleLocalPrivacyEnabled (plat st) then
             GenerateRpa (inst_id (adv_inst st ! i)) (RegisterAdvertiser_lambda i k)
               (upd_inst i (\<lambda>p. p\<lparr>own_address_type := BLE_ADDR_RANDOM (plat st)\<rparr>) st1)
           else st1
         else
           run_cb k [inst_id (adv_inst st ! i), BTM_BLE_MULTI_ADV_SUCCESS]
             (upd_inst i (\<lambda>p. p\<lparr>own_address := take 6 (controller_address (plat st))\<rparr>)
                (upd_inst i (\<lambda>p. p\<lparr>own_address_type := BLE_ADDR_PUBLIC (plat st)\<rparr>) st1)))"
  by (subst RegisterAdvertiser_loop.simps) (simp add: Let_def)

lemma ex_manager_wf: "length (adv_inst ex_manager) = unat (inst_count ex_manager)"
  unfolding ex_manager_def by code_simp

subsection \<open>The address generator\<close>

lemma upd6:
  "length xs = 6 \<Longrightarrow> xs[2 := a, Suc 0 := b, 0 := c, 5 := d, 4 := e, 3 := f] = [c, b, a, f, e, d]"
  by (auto simp: length_Suc_conv eval_nat_numeral)

lemma not_mask: "(NOT 0xC0 :: u8) = 0x3F"
  by simp

lemma mask_step:
  "(x AND NOT BLE_RESOLVE_ADDR_MASK) OR BLE_RESOLVE_ADDR_MSB = (x AND 0x3F) OR 0x40"
  unfolding BLE_RESOLVE_ADDR_MASK_def BLE_RESOLVE_ADDR_MSB_def by (simp only: not_mask)

lemma top_bits_01: "((x AND 0x3F) OR 0x40) AND (0xC0 :: u8) = 0x40"
proof -
  have "((x AND 0x3F) OR 0x40) AND (0xC0 :: u8) = (x AND (0x3F AND 0xC0)) OR (0x40 AND 0xC0)"
    by (simp only: bit.conj_disj_distrib2 and.assoc)
  also have "\<dots> = 0x40" by simp
  finally show ?thesis .
qed

lemma rpa_rand_take3:
  "length rand = 8 \<Longrightarrow>
   take 3 (rpa_rand rand) = [rand ! 0, rand ! 1, ((rand ! 2) AND 0x3F) OR 0x40]"
  by (auto simp: rpa_rand_def Let_def mask_step length_Suc_conv eval_nat_numeral)

lemma rpa_rand_nth:
  "length rand = 8 \<Longrightarrow>
   rpa_rand rand ! 0 = rand ! 0 \<and> rpa_rand rand ! 1 = rand ! 1 \<and>
   rpa_rand rand ! 2 = ((rand ! 2) AND 0x3F) OR 0x40"
  by (auto simp: rpa_rand_def Let_def mask_step length_Suc_conv eval_nat_numeral)

subsection \<open>The branches of \<open>Enable\<close>\<close>

lemma Enable_timer:
  "i < inst_count st \<Longrightarrow> unat i < length (adv_inst st) \<Longrightarrow> in_use (adv_inst st ! unat i) \<Longrightarrow>
   timeout_s' \<noteq> 0 \<Longrightarrow>
   Enable i True k timeout_s' timeout_cb st =
     hci_send (HciEnable True (inst_id (adv_inst st ! unat i)) 0x0000 0x00)
       (EnableWithTimerCb_bound i k timeout_s' timeout_cb) st"
  by (simp add: Enable.simps Let_def not_le)

lemma Enable_plain:
  "i < inst_count st \<Longrightarrow> unat i < length (adv_inst st) \<Longrightarrow> in_use (adv_inst st ! unat i) \<Longrightarrow>
   \<not> (enable \<and> timeout_s' \<noteq> 0) \<Longrightarrow> timeout_timer (adv_inst st ! unat i) = None \<Longrightarrow>
   fault st = None \<Longrightarrow>
   Enable i enable k timeout_s' timeout_cb st =
     hci_send (HciEnable enable (inst_id (adv_inst st ! unat i)) 0x0000 0x00) k st"
  by (simp add: Enable.simps Let_def not_le)

lemma Enable_cancel:
  "i < inst_count st \<Longrightarrow> unat i < length (adv_inst st) \<Longrightarrow> in_use (adv_inst st ! unat i) \<Longrightarrow>
   \<not> (enable \<and> timeout_s' \<noteq> 0) \<Longrightarrow> timeout_timer (adv_inst st ! unat i) = Some h \<Longrightarrow>
   alarm_live h st \<Longrightarrow> fault st = None \<Longrightarrow>
   Enable i enable k timeout_s' timeout_cb st =
     hci_send (HciEnable enable (inst_id (adv_inst st ! unat i)) 0x0000 0x00) k
       (upd_inst (unat i) (\<lambda>p. p\<lparr>timeout_timer := None\<rparr>)
          (st\<lparr>alarms := (alarms st)[h := (alarms st ! h)\<lparr>a_armed := None, a_freed := True\<rparr>],
              trace := trace st @ [AlarmCancel h, AlarmFree h]\<rparr>))"
  by (auto simp add: Enable.simps Let_def not_le alarm_cancel_def alarm_free_def alarm_live_def upd_inst_def)

lemma EnableWithTimerCb_user:
  "unat i < length (adv_inst st) \<Longrightarrow> fault st = None \<Longrightarrow>
   run_cb (EnableWithTimerCb_bound i (UserCb n) timeout_s' timeout_cb) [status] st =
     st\<lparr>adv_inst := (adv_inst st)[unat i := (adv_inst st ! unat i)
              \<lparr>timeout_s := timeout_s', timeout_timer := Some (length (alarms st))\<rparr>],
        alarms := alarms st @ [\<lparr>a_periodic = False,
                         a_armed = Some (scast (timeout_s' * 1000),
                                         Enable_bound i False timeout_cb 0 DoNothing),
                         a_freed = False\<rparr>],
        trace := trace st @ [CbRun n [status], AlarmNew (length (alarms st)),
                       AlarmSet (length (alarms st)) (scast (timeout_s' * 1000))]\<rparr>"
  by (simp add: Let_def alarm_new_def alarm_set_on_queue_def alarm_live_def upd_inst_def log_event_def)


lemma hci_complete_hci_send_other:
  "hci_pending st = [] \<Longrightarrow> \<not> is_HciSetParameters cmd \<Longrightarrow>
   hci_complete status txp (hci_send cmd k st) = run_cb k [status] (add_cmds [cmd] st)"
  by (simp add: hci_complete_hci_send)

subsection \<open>The preprocessing of \<open>SetData\<close> on well-formed payloads\<close>

lemma and_0x10: "(x AND 0x10 = 0) = (\<not> bit x 4)" for x :: "'a::len word"
  using and_exp_eq_0_iff_not_bit[of x 4] by simp

lemma and_0x01: "(x AND 0x01 = 0) = (\<not> bit x 0)" for x :: "'a::len word"
  using and_exp_eq_0_iff_not_bit[of x 0] by simp

lemma is_legacy_connectable_ucast:
  "is_legacy_connectable (ucast p) = ((p AND 0x10) \<noteq> 0 \<and> (p AND 0x01) \<noteq> 0)" for p :: u8
  by (simp add: is_legacy_connectable_def and_0x10 and_0x01 bit_ucast_iff)

lemma SetData_flags_legacy_connectable:
  "(advertising_event_properties p AND 0x10) \<noteq> 0 \<Longrightarrow> (advertising_event_properties p AND 0x01) \<noteq> 0 \<Longrightarrow>
   SetData_flags p False data =
     [0x02, 0x01, if timeout_s p \<noteq> 0 then 0x01 else 0x02] @ data"
  by (simp add: SetData_flags_def is_legacy_connectable_ucast HCI_EIR_FLAGS_TYPE_def
        BTM_LIMITED_DISCOVERABLE_def BTM_GENERAL_DISCOVERABLE_def)

lemma fill_tx_power_structures:
  "\<forall>s \<in> set ss. ad_ok s \<Longrightarrow>
   fill_tx_power txp (length pre) (pre @ concat (map ad_bytes ss)) =
     Some (pre @ concat (map (\<lambda>s. ad_bytes (ad_set_tx_power txp s)) ss))"
proof (induction ss arbitrary: pre)
  case Nil
  show ?case by (subst fill_tx_power.simps) simp
next
  case (Cons s ss)
  obtain t vs where s: "s = (t, vs)" by (cases s)
  from Cons.prems s have len: "length vs + 1 < 256" and tx: "t = HCI_EIR_TX_POWER_LEVEL_TYPE \<Longrightarrow> vs \<noteq> []"
    and rest: "\<forall>s \<in> set ss. ad_ok s"
    by (auto simp: ad_ok_def)
  let ?rest = "concat (map ad_bytes ss)"
  let ?l = "of_nat (length vs + 1) :: u8"
  have "unat ?l = (length vs + 1) mod 2 ^ LENGTH(8)"
    by (rule unat_of_nat)
  with len have ul: "unat ?l = length vs + 1"
    by simp
  show ?case
  proof (cases "t = HCI_EIR_TX_POWER_LEVEL_TYPE")
    case False
    have "fill_tx_power txp (length pre) (pre @ concat (map ad_bytes (s # ss))) =
          fill_tx_power txp (length (pre @ ad_bytes s)) ((pre @ ad_bytes s) @ ?rest)"
      using False ul by (subst fill_tx_power.simps) (simp add: s ad_bytes_def nth_append)
    also have "\<dots> = Some ((pre @ ad_bytes s) @ concat (map (\<lambda>s. ad_bytes (ad_set_tx_power txp s)) ss))"
      by (rule Cons.IH[OF rest])
    finally show ?thesis using False by (simp add: s ad_set_tx_power_def)
  next
    case True
    with tx obtain v vs' where vs: "vs = v # vs'" by (cases vs) auto
    let ?s' = "(t, txp # vs')"
    have upd: "(pre @ concat (map ad_bytes (s # ss)))[length pre + 2 := txp] = (pre @ ad_bytes ?s') @ ?rest"
      by (simp add: s vs ad_bytes_def list_update_append)
    have "fill_tx_power txp (length pre) (pre @ concat (map ad_bytes (s # ss))) =
          fill_tx_power txp (length (pre @ ad_bytes ?s')) ((pre @ ad_bytes ?s') @ ?rest)"
      using True ul
      apply (subst fill_tx_power.simps)
      apply (simp only: upd)
      apply (simp add: s vs ad_bytes_def nth_append)
      done
    also have "\<dots> = Some ((pre @ ad_bytes ?s') @ concat (map (\<lambda>s. ad_bytes (ad_set_tx_power txp s)) ss))"
      by (rule Cons.IH[OF rest])
    finally show ?thesis using True by (simp add: s vs ad_set_tx_power_def)
  qed
qed


lemma SetData_prepare_structures:
  assumes "(advertising_event_properties p AND 0x10) \<noteq> 0"
    and "(advertising_event_properties p AND 0x01) \<noteq> 0"
    and "\<forall>s \<in> set ss. ad_ok s"
  shows "SetData_prepare p False (concat (map ad_bytes ss)) =
           Some ([0x02, 0x01, if timeout_s p \<noteq> 0 then 0x01 else 0x02] @
                 concat (map (\<lambda>s. ad_bytes (ad_set_tx_power (tx_power p) s)) ss))"
proof -
  let ?v = "if timeout_s p \<noteq> 0 then 0x01 else 0x02 :: u8"
  have ok: "\<forall>s \<in> set ((0x01, [?v]) # ss). ad_ok s"
    using assms(3) by (simp add: ad_ok_def HCI_EIR_TX_POWER_LEVEL_TYPE_def)
  have "fill_tx_power (tx_power p) (length ([] :: u8 list)) ([] @ concat (map ad_bytes ((0x01, [?v]) # ss))) =
        Some ([] @ concat (map (\<lambda>s. ad_bytes (ad_set_tx_power (tx_power p) s)) ((0x01, [?v]) # ss)))"
    by (rule fill_tx_power_structures[OF ok])
  then show ?thesis
    using assms(1,2)
    by (simp add: SetData_prepare_def SetData_flags_legacy_connectable ad_bytes_def
          ad_set_tx_power_def HCI_EIR_TX_POWER_LEVEL_TYPE_def)
qed
subsection \<open>The commissioning pipelines\<close>

lemma visible_append [simp]: "visible (a @ b) = visible a @ visible b"
  by (simp add: visible_def)

lemma visible_simps [simp]:
  "visible [] = []"
  "visible (HciCmd c # tr) = HciCmd c # visible tr"
  "visible (CbRun n args # tr) = CbRun n args # visible tr"
  "visible (AlarmNew h # tr) = visible tr"
  "visible (AlarmSet h ms # tr) = visible tr"
  "visible (AlarmCancel h # tr) = visible tr"
  "visible (AlarmFree h # tr) = visible tr"
  "visible (RpaRequested # tr) = visible tr"
  "visible (AclUpdateConnAddr ch a # tr) = visible tr"
  by (simp_all add: visible_def)

lemma visible_map_HciCmd [simp]: "visible (map HciCmd cmds) = map HciCmd cmds"
  by (induction cmds) simp_all

lemma drive_append: "drive (xs @ ys) st = drive ys (drive xs st)"
  by (simp add: drive_def)

lemma drive_replicate_Suc:
  "drive (replicate (Suc k) (0, t)) st = drive (replicate k (0, t)) (hci_complete 0 t st)"
  by simp

lemma chained_drive:
  "chained vis0 pre cmds Q F st \<Longrightarrow>
   (k < length cmds \<longrightarrow>
      map fst (hci_pending (drive (replicate k (0, t)) st)) = [cmds ! k] \<and>
      fault (drive (replicate k (0, t)) st) = None \<and>
      visible (trace (drive (replicate k (0, t)) st)) = vis0 @ map HciCmd (pre @ take (Suc k) cmds) \<and>
      (\<forall>s t'. s \<noteq> 0 \<longrightarrow>
         F (pre @ take (Suc k) cmds) s (drive (replicate k (0, t) @ [(s, t')]) st))) \<and>
   (k = length cmds \<longrightarrow> Q (pre @ cmds) (drive (replicate k (0, t)) st))"
proof (induction cmds arbitrary: pre st k)
  case Nil
  then show ?case by simp
next
  case (Cons c cmds)
  from Cons.prems have
    p: "map fst (hci_pending st) = [c]" "fault st = None"
       "visible (trace st) = vis0 @ map HciCmd (pre @ [c])" and
    f: "\<And>s t. s \<noteq> 0 \<Longrightarrow> F (pre @ [c]) s (hci_complete s t st)" and
    n: "chained vis0 (pre @ [c]) cmds Q F (hci_complete 0 t st)"
    by simp_all
  show ?case
  proof (cases k)
    case 0
    with p f show ?thesis by simp
  next
    case (Suc k')
    from Cons.IH[OF n, of k'] Suc show ?thesis
      by (simp add: drive_append)
  qed
qed

lemma add_cmds_add_cmds: "add_cmds b (add_cmds a st) = add_cmds (a @ b) st"
  by (simp add: add_cmds_def)

lemma DASR_chained:
  assumes "n = length (DivideAndSendData_chunks isFirst data offset)"
    and "hci_pending st = []" "fault st = None" "offset \<le> length data"
    and "visible (trace st) = vis0 @ map HciCmd pre"
    and fail: "\<And>issued s. s \<noteq> 0 \<Longrightarrow> F (pre @ issued) s (run_cb done_cb [s] (add_cmds issued st))"
    and succ: "chained vis0 (pre @ map (sender_cmd sender i) (DivideAndSendData_chunks isFirst data offset))
                 cmds' Q F
                 (run_cb done_cb [0]
                    (add_cmds (map (sender_cmd sender i) (DivideAndSendData_chunks isFirst data offset)) st))"
  shows "chained vis0 pre (map (sender_cmd sender i) (DivideAndSendData_chunks isFirst data offset) @ cmds')
           Q F (DivideAndSendDataRecursively isFirst i data offset done_cb sender 0 st)"
  using assms
proof (induction n arbitrary: isFirst offset st pre)
  case 0
  have "\<not> (isFirst \<or> offset < length data)"
  proof
    assume a: "isFirst \<or> offset < length data"
    from chunks_Cons[OF a] "0.prems"(1) show False by simp
  qed
  with "0.prems" have "\<not> isFirst" "offset = length data" by auto
  with "0.prems" show ?case by (simp add: DASR_done)
next
  case (Suc n)
  then have ne: "isFirst \<or> offset < length data"
    using chunks_Nil[of isFirst data offset] by (cases "isFirst \<or> offset < length data") auto
  note unf = chunks_Cons[OF ne]
  let ?off = "offset + next_len data offset"
  let ?c = "sender_cmd sender i (next_chunk isFirst data offset)"
  let ?st = "add_cmds [?c] st"
  let ?k = "DivideAndSendDataRecursively_bound False i data ?off done_cb sender"
  have n: "n = length (DivideAndSendData_chunks False data ?off)"
    using Suc.prems(1) unf by simp
  have send: "DivideAndSendDataRecursively isFirst i data offset done_cb sender 0 st = hci_send ?c ?k st"
    by (rule DASR_send[OF ne])
  have compl: "hci_complete s t (hci_send ?c ?k st) =
               DivideAndSendDataRecursively False i data ?off done_cb sender s ?st" for s t
    using Suc.prems(2) by (simp add: hci_complete_hci_send)
  have IH: "chained vis0 (pre @ [?c])
              (map (sender_cmd sender i) (DivideAndSendData_chunks False data ?off) @ cmds') Q F
              (DivideAndSendDataRecursively False i data ?off done_cb sender 0 ?st)"
  proof (rule Suc.IH[OF n])
    show "hci_pending ?st = []" "fault ?st = None" using Suc.prems by simp_all
    show "?off \<le> length data" using Suc.prems by (simp add: next_len_le)
    show "visible (trace ?st) = vis0 @ map HciCmd (pre @ [?c])" using Suc.prems(5) by simp
    show "F ((pre @ [?c]) @ issued) s (run_cb done_cb [s] (add_cmds issued ?st))" if "s \<noteq> 0" for issued s
      using Suc.prems(6)[OF that, of "?c # issued"] by (simp add: add_cmds_add_cmds)
    show "chained vis0 ((pre @ [?c]) @ map (sender_cmd sender i) (DivideAndSendData_chunks False data ?off))
            cmds' Q F
            (run_cb done_cb [0] (add_cmds (map (sender_cmd sender i) (DivideAndSendData_chunks False data ?off)) ?st))"
      using Suc.prems(7) unfolding unf by (simp add: add_cmds_add_cmds)
  qed
  have F: "F (pre @ [?c]) s (hci_complete s t (hci_send ?c ?k st))" if "s \<noteq> 0" for s t
    unfolding compl using Suc.prems(6)[OF that, of "[?c]"] that by (simp add: DASR_done)
  show ?case
    unfolding unf send using Suc.prems(2,3,5) F IH
    by (simp add: compl)
qed

lemma alarm_fields [simp]:
  "hci_pending (alarm_new b st) = hci_pending st"
  "fault (alarm_new b st) = fault st"
  "adv_inst (alarm_new b st) = adv_inst st"
  "inst_count (alarm_new b st) = inst_count st"
  "plat (alarm_new b st) = plat st"
  "visible (trace (alarm_new b st)) = visible (trace st)"
  "hci_pending (alarm_cancel h st) = hci_pending st"
  "adv_inst (alarm_cancel h st) = adv_inst st"
  "inst_count (alarm_cancel h st) = inst_count st"
  "plat (alarm_cancel h st) = plat st"
  "visible (trace (alarm_cancel h st)) = visible (trace st)"
  "hci_pending (alarm_free h st) = hci_pending st"
  "adv_inst (alarm_free h st) = adv_inst st"
  "inst_count (alarm_free h st) = inst_count st"
  "plat (alarm_free h st) = plat st"
  "visible (trace (alarm_free h st)) = visible (trace st)"
  "hci_pending (alarm_set_on_queue h ms k st) = hci_pending st"
  "adv_inst (alarm_set_on_queue h ms k st) = adv_inst st"
  "inst_count (alarm_set_on_queue h ms k st) = inst_count st"
  "plat (alarm_set_on_queue h ms k st) = plat st"
  "visible (trace (alarm_set_on_queue h ms k st)) = visible (trace st)"
  by (simp_all add: alarm_new_def alarm_cancel_def alarm_free_def alarm_set_on_queue_def set_fault_def)

lemma SetData_send:
  "i < inst_count st \<Longrightarrow> unat i < length (adv_inst st) \<Longrightarrow>
   SetData_prepare (adv_inst st ! unat i) is_scan_rsp data = Some d \<Longrightarrow>
   SetData i is_scan_rsp data k st =
     DivideAndSendDataRecursively True i d 0 k (SetDataAdvDataSender is_scan_rsp) 0 st"
  by (simp add: SetData.simps DivideAndSendData.simps not_le)

lemma Enable_user_chained:
  assumes ok: "inst_ok st i" and use: "in_use (adv_inst st ! unat i)"
    and idle: "hci_pending st = []" "fault st = None"
    and vis: "visible (trace st) = vis0 @ map HciCmd pre"
  shows "chained vis0 pre [HciEnable True (inst_id (adv_inst st ! unat i)) 0x0000 0x00]
           (\<lambda>issued. reported vis0 n issued [0]) (\<lambda>issued s. reported vis0 n issued [s])
           (Enable i True (UserCb n) timeout_s' timeout_cb st)"
proof -
  let ?cmd = "HciEnable True (inst_id (adv_inst st ! unat i)) 0x0000 0x00"
  from ok have i: "i < inst_count st" "unat i < length (adv_inst st)"
    by (simp_all add: inst_ok_def)
  show ?thesis
  proof (cases "timeout_s' \<noteq> 0")
    case True
    have e: "Enable i True (UserCb n) timeout_s' timeout_cb st =
          hci_send ?cmd (EnableWithTimerCb_bound i (UserCb n) timeout_s' timeout_cb) st"
      using i use True by (rule Enable_timer)
    have c: "reported vis0 n (pre @ [?cmd]) [s] (hci_complete s t (hci_send ?cmd
               (EnableWithTimerCb_bound i (UserCb n) timeout_s' timeout_cb) st))" for s t
    proof -
      have "hci_complete s t (hci_send ?cmd (EnableWithTimerCb_bound i (UserCb n) timeout_s' timeout_cb) st) =
            run_cb (EnableWithTimerCb_bound i (UserCb n) timeout_s' timeout_cb) [s] (add_cmds [?cmd] st)"
        by (rule hci_complete_hci_send_other) (simp_all add: idle)
      also have "\<dots> = (add_cmds [?cmd] st)\<lparr>adv_inst := (adv_inst (add_cmds [?cmd] st))[unat i := (adv_inst (add_cmds [?cmd] st) ! unat i)
              \<lparr>timeout_s := timeout_s', timeout_timer := Some (length (alarms (add_cmds [?cmd] st)))\<rparr>],
        alarms := alarms (add_cmds [?cmd] st) @ [\<lparr>a_periodic = False,
                         a_armed = Some (scast (timeout_s' * 1000),
                                         Enable_bound i False timeout_cb 0 DoNothing),
                         a_freed = False\<rparr>],
        trace := trace (add_cmds [?cmd] st) @ [CbRun n [s], AlarmNew (length (alarms (add_cmds [?cmd] st))),
                       AlarmSet (length (alarms (add_cmds [?cmd] st))) (scast (timeout_s' * 1000))]\<rparr>"
        by (rule EnableWithTimerCb_user) (simp_all add: i idle)
      finally show ?thesis
        using idle vis by (simp add: reported_def)
    qed
    show ?thesis
      unfolding e using idle vis c by simp
  next
    case False
    show ?thesis
    proof (cases "timeout_timer (adv_inst st ! unat i)")
      case None
      have e: "Enable i True (UserCb n) timeout_s' timeout_cb st = hci_send ?cmd (UserCb n) st"
        using i use False None idle by (intro Enable_plain) simp_all
      have c: "reported vis0 n (pre @ [?cmd]) [s] (hci_complete s t (hci_send ?cmd (UserCb n) st))" for s t
        using idle i vis
        by (simp add: hci_complete_hci_send_other reported_def)
      show ?thesis
        unfolding e using idle vis c by simp
    next
      case (Some h)
      with ok have live: "alarm_live h st" by (simp add: inst_ok_def)
      let ?st' = "upd_inst (unat i) (\<lambda>p. p\<lparr>timeout_timer := None\<rparr>)
          (st\<lparr>alarms := (alarms st)[h := (alarms st ! h)\<lparr>a_armed := None, a_freed := True\<rparr>],
              trace := trace st @ [AlarmCancel h, AlarmFree h]\<rparr>)"
      have e: "Enable i True (UserCb n) timeout_s' timeout_cb st = hci_send ?cmd (UserCb n) ?st'"
        using i use False Some live idle by (intro Enable_cancel) simp_all
      have st': "hci_pending ?st' = []" "fault ?st' = None" "visible (trace ?st') = vis0 @ map HciCmd pre"
        using idle vis by simp_all
      have c: "reported vis0 n (pre @ [?cmd]) [s] (hci_complete s t (hci_send ?cmd (UserCb n) ?st'))" for s t
        using st'
        by (simp add: hci_complete_hci_send_other reported_def del: upd_inst_fields)
      show ?thesis
        unfolding e using st' c by (simp del: upd_inst_fields)
    qed
  qed
qed

lemma SetParameters_send:
  "i < inst_count st \<Longrightarrow> unat i < length (adv_inst st) \<Longrightarrow> in_use (adv_inst st ! unat i) \<Longrightarrow>
   SetParameters i params k st =
     hci_send (SetParameters_cmd (adv_inst st ! unat i) params) k
       (upd_inst (unat i)
          (\<lambda>p. p\<lparr>advertising_event_properties := ucast (p_advertising_event_properties params),
                  tx_power := p_tx_power params\<rparr>) st)"
  by (simp add: SetParameters.simps Let_def not_le SetParameters_cmd_def upd_inst_def hci_send_def)

lemma inst_ok_same:
  "inst_count st' = inst_count st \<Longrightarrow> alarms st' = alarms st \<Longrightarrow>
   length (adv_inst st') = length (adv_inst st) \<Longrightarrow>
   adv_raddr_timer (adv_inst st' ! unat i) = adv_raddr_timer (adv_inst st ! unat i) \<Longrightarrow>
   timeout_timer (adv_inst st' ! unat i) = timeout_timer (adv_inst st ! unat i) \<Longrightarrow>
   inst_ok st i \<Longrightarrow> inst_ok st' i"
  by (auto simp: inst_ok_def alarm_live_def split: option.splits)

lemma SA_chained:
  assumes ok: "inst_ok st i" and use: "in_use (adv_inst st ! unat i)"
    and idle: "hci_pending st = []" "fault st = None"
    and prep1: "SetData_prepare (configured (adv_inst st ! unat i) params txp) False ad = Some d1"
    and prep2: "SetData_prepare (configured (adv_inst st ! unat i) params txp) True sr = Some d2"
  shows "StartAdvertising i (UserCb n) params ad sr ts tk st =
           hci_send (SetParameters_cmd (adv_inst st ! unat i) params)
             (SA_SetParametersCb (SaParams i (UserCb n) params ad sr ts tk))
             (upd_inst (unat i)
                (\<lambda>p. p\<lparr>advertising_event_properties := ucast (p_advertising_event_properties params),
                        tx_power := p_tx_power params\<rparr>) st)"
    and "chained (visible (trace st)) [SetParameters_cmd (adv_inst st ! unat i) params]
           (tl (StartAdvertising_script (adv_inst st ! unat i) i params d1 d2))
           (\<lambda>issued. reported (visible (trace st)) n issued [0])
           (\<lambda>issued s. reported (visible (trace st)) n issued [s])
           (hci_complete 0 txp (StartAdvertising i (UserCb n) params ad sr ts tk st))"
proof -
  let ?p = "adv_inst st ! unat i"
  let ?c = "SaParams i (UserCb n) params ad sr ts tk"
  let ?vis0 = "visible (trace st)"
  let ?cmdP = "SetParameters_cmd ?p params"
  let ?cmdR = "HciSetRandomAddress i (own_address ?p)"
  let ?cmdE = "HciEnable True (inst_id ?p) 0x0000 0x00"
  let ?data1 = "data_cmds (SetDataAdvDataSender False) i d1"
  let ?data2 = "data_cmds (SetDataAdvDataSender True) i d2"
  let ?Q = "\<lambda>issued. reported ?vis0 n issued [0]"
  let ?F = "\<lambda>issued s. reported ?vis0 n issued [s]"
  from ok have i: "i < inst_count st" "unat i < length (adv_inst st)"
    by (simp_all add: inst_ok_def)
  let ?st1 = "upd_inst (unat i)
          (\<lambda>p. p\<lparr>advertising_event_properties := ucast (p_advertising_event_properties params),
                  tx_power := p_tx_power params\<rparr>) st"
  show S: "StartAdvertising i (UserCb n) params ad sr ts tk st = hci_send ?cmdP (SA_SetParametersCb ?c) ?st1"
    using i use by (simp add: StartAdvertising_def SetParameters_send)
  let ?st2 = "upd_inst (unat i) (\<lambda>p. p\<lparr>tx_power := txp\<rparr>) (add_cmds [?cmdP] ?st1)"
  have st2: "hci_pending ?st2 = []" "fault ?st2 = None" "inst_count ?st2 = inst_count st"
    "alarms ?st2 = alarms st" "length (adv_inst ?st2) = length (adv_inst st)"
    "adv_inst ?st2 ! unat i = configured ?p params txp"
    "visible (trace ?st2) = ?vis0 @ map HciCmd [?cmdP]"
    using i idle by (simp_all add: configured_def)
  have ok2: "inst_ok ?st2 i"
    using st2 by (intro inst_ok_same[OF _ _ _ _ _ ok]) (simp_all add: configured_def)
  have C1: "hci_complete 0 txp (hci_send ?cmdP (SA_SetParametersCb ?c) ?st1) =
            hci_send ?cmdR (SA_SetRandomAddressCb ?c) ?st2"
    using i idle by (simp add: hci_complete_hci_send SetParameters_cmd_def Let_def)
  let ?st3 = "add_cmds [?cmdR] ?st2"
  have st3: "hci_pending ?st3 = []" "fault ?st3 = None" "inst_count ?st3 = inst_count st"
    "alarms ?st3 = alarms st" "length (adv_inst ?st3) = length (adv_inst st)"
    "adv_inst ?st3 ! unat i = configured ?p params txp"
    "visible (trace ?st3) = ?vis0 @ map HciCmd [?cmdP, ?cmdR]"
    using st2 by simp_all
  have fin: "chained ?vis0 (([?cmdP, ?cmdR] @ ?data1) @ ?data2) [?cmdE] ?Q ?F
               (run_cb (SA_ScanRspCb ?c) [0] st5)"
    if "hci_pending st5 = []" "fault st5 = None" "inst_count st5 = inst_count st"
      "alarms st5 = alarms st" "length (adv_inst st5) = length (adv_inst st)"
      "adv_inst st5 ! unat i = configured ?p params txp"
      "visible (trace st5) = ?vis0 @ map HciCmd (([?cmdP, ?cmdR] @ ?data1) @ ?data2)" for st5
  proof -
    have ok5: "inst_ok st5 i"
      using that by (intro inst_ok_same[OF _ _ _ _ _ ok]) (simp_all add: configured_def)
    have use5: "in_use (adv_inst st5 ! unat i)"
      using that use by (simp add: configured_def)
    have "chained ?vis0 (([?cmdP, ?cmdR] @ ?data1) @ ?data2)
            [HciEnable True (inst_id (adv_inst st5 ! unat i)) 0x0000 0x00] ?Q ?F
            (Enable i True (UserCb n) ts tk st5)"
      using ok5 use5 that(1,2,7) by (rule Enable_user_chained)
    then show ?thesis using that(6) by (simp add: configured_def)
  qed
  have scan: "chained ?vis0 ([?cmdP, ?cmdR] @ ?data1) (?data2 @ [?cmdE]) ?Q ?F
               (run_cb (SA_AdvDataCb ?c) [0] st4)"
    if "hci_pending st4 = []" "fault st4 = None" "inst_count st4 = inst_count st"
      "alarms st4 = alarms st" "length (adv_inst st4) = length (adv_inst st)"
      "adv_inst st4 ! unat i = configured ?p params txp"
      "visible (trace st4) = ?vis0 @ map HciCmd ([?cmdP, ?cmdR] @ ?data1)" for st4
  proof -
    have "run_cb (SA_AdvDataCb ?c) [0] st4 =
          DivideAndSendDataRecursively True i d2 0 (SA_ScanRspCb ?c) (SetDataAdvDataSender True) 0 st4"
      using that i prep2 by (simp add: SetData_send)
    moreover have "chained ?vis0 ([?cmdP, ?cmdR] @ ?data1)
        (map (sender_cmd (SetDataAdvDataSender True) i) (DivideAndSendData_chunks True d2 0) @ [?cmdE]) ?Q ?F
        (DivideAndSendDataRecursively True i d2 0 (SA_ScanRspCb ?c) (SetDataAdvDataSender True) 0 st4)"
    proof (rule DASR_chained[OF refl])
      show "hci_pending st4 = []" "fault st4 = None" "0 \<le> length d2"
        "visible (trace st4) = ?vis0 @ map HciCmd ([?cmdP, ?cmdR] @ ?data1)"
        using that by simp_all
      show "reported ?vis0 n (([?cmdP, ?cmdR] @ ?data1) @ issued) [s]
              (run_cb (SA_ScanRspCb ?c) [s] (add_cmds issued st4))" if "s \<noteq> 0" for issued s
        using that \<open>hci_pending st4 = []\<close> \<open>fault st4 = None\<close>
          \<open>visible (trace st4) = ?vis0 @ map HciCmd ([?cmdP, ?cmdR] @ ?data1)\<close>
        by (simp add: reported_def)
      show "chained ?vis0 (([?cmdP, ?cmdR] @ ?data1) @
               map (sender_cmd (SetDataAdvDataSender True) i) (DivideAndSendData_chunks True d2 0))
             [?cmdE] ?Q ?F
             (run_cb (SA_ScanRspCb ?c) [0]
                (add_cmds (map (sender_cmd (SetDataAdvDataSender True) i) (DivideAndSendData_chunks True d2 0)) st4))"
        using that by (fold data_cmds_def, intro fin) simp_all
    qed
    ultimately show ?thesis by (simp add: data_cmds_def)
  qed
  have adv: "chained ?vis0 [?cmdP, ?cmdR] (?data1 @ ?data2 @ [?cmdE]) ?Q ?F
               (run_cb (SA_SetRandomAddressCb ?c) [0] ?st3)"
  proof -
    have "run_cb (SA_SetRandomAddressCb ?c) [0] ?st3 =
          DivideAndSendDataRecursively True i d1 0 (SA_AdvDataCb ?c) (SetDataAdvDataSender False) 0 ?st3"
      using st3 i prep1 by (simp add: SetData_send del: upd_inst_fields add_cmds_fields)
    moreover have "chained ?vis0 [?cmdP, ?cmdR]
        (map (sender_cmd (SetDataAdvDataSender False) i) (DivideAndSendData_chunks True d1 0) @ (?data2 @ [?cmdE])) ?Q ?F
        (DivideAndSendDataRecursively True i d1 0 (SA_AdvDataCb ?c) (SetDataAdvDataSender False) 0 ?st3)"
    proof (rule DASR_chained[OF refl])
      show "hci_pending ?st3 = []" "fault ?st3 = None" "0 \<le> length d1"
        "visible (trace ?st3) = ?vis0 @ map HciCmd [?cmdP, ?cmdR]"
        using st3 by simp_all
      show "reported ?vis0 n ([?cmdP, ?cmdR] @ issued) [s]
              (run_cb (SA_AdvDataCb ?c) [s] (add_cmds issued ?st3))" if "s \<noteq> 0" for issued s
        using that st3(1,2,7) by (simp add: reported_def)
      show "chained ?vis0 ([?cmdP, ?cmdR] @
               map (sender_cmd (SetDataAdvDataSender False) i) (DivideAndSendData_chunks True d1 0))
             (?data2 @ [?cmdE]) ?Q ?F
             (run_cb (SA_AdvDataCb ?c) [0]
                (add_cmds (map (sender_cmd (SetDataAdvDataSender False) i) (DivideAndSendData_chunks True d1 0)) ?st3))"
        using st3 by (fold data_cmds_def, intro scan) simp_all
    qed
    ultimately show ?thesis by (simp add: data_cmds_def)
  qed
  have rnd: "chained ?vis0 [?cmdP] (?cmdR # ?data1 @ ?data2 @ [?cmdE]) ?Q ?F
               (hci_send ?cmdR (SA_SetRandomAddressCb ?c) ?st2)"
  proof -
    have c: "hci_complete s t (hci_send ?cmdR (SA_SetRandomAddressCb ?c) ?st2) =
             run_cb (SA_SetRandomAddressCb ?c) [s] ?st3" for s t
      by (rule hci_complete_hci_send_other) (simp_all add: idle)
    have f: "reported ?vis0 n ([?cmdP] @ [?cmdR]) [s] (run_cb (SA_SetRandomAddressCb ?c) [s] ?st3)"
      if "s \<noteq> 0" for s
      using that st3(1,2,7) by (simp add: reported_def del: upd_inst_fields add_cmds_fields)
    show ?thesis
      using st2(1,2,7) f adv by (simp add: c del: upd_inst_fields add_cmds_fields run_cb.simps)
  qed
  show "chained ?vis0 [?cmdP] (tl (StartAdvertising_script ?p i params d1 d2)) ?Q ?F
           (hci_complete 0 txp (StartAdvertising i (UserCb n) params ad sr ts tk st))"
    unfolding S C1 using rnd by (simp add: StartAdvertising_script_def)
qed

lemma EnableWithTimerCb_run:
  "fault (run_cb k [s] st) = None \<Longrightarrow> unat i < length (adv_inst (run_cb k [s] st)) \<Longrightarrow>
   run_cb (EnableWithTimerCb_bound i k ts tk) [s] st = timer_setup i ts tk (run_cb k [s] st)"
  by (simp add: Let_def timer_setup_def alarm_new_def alarm_set_on_queue_def alarm_live_def upd_inst_def)

lemma map_in_use_upd:
  "map in_use ((xs)[j := (xs ! j)\<lparr>timeout_s := a, timeout_timer := b\<rparr>]) = map in_use xs"
  "map in_use ((xs)[j := (xs ! j)\<lparr>timeout_timer := b\<rparr>]) = map in_use xs"
  "map in_use ((xs)[j := (xs ! j)\<lparr>tx_power := c\<rparr>]) = map in_use xs"
  by (cases "j < length xs"; simp add: map_update list_update_same_conv list_update_beyond)+

lemma timer_setup_fields [simp]:
  "hci_pending (timer_setup i ts tk st) = hci_pending st"
  "fault (timer_setup i ts tk st) = fault st"
  "visible (trace (timer_setup i ts tk st)) = visible (trace st)"
  "map in_use (adv_inst (timer_setup i ts tk st)) = map in_use (adv_inst st)"
  "adv_inst (timer_setup i ts tk st) =
     (adv_inst st)[unat i := (adv_inst st ! unat i)\<lparr>timeout_s := ts, timeout_timer := Some (length (alarms st))\<rparr>]"
  by (simp_all add: timer_setup_def map_in_use_upd)

lemma completed_timer_setup:
  "completed vis0 flags n args issued st \<Longrightarrow>
   completed vis0 flags n args issued (timer_setup i ts tk st)"
  by (simp add: completed_def timer_setup_def map_in_use_upd)

lemma compensated_timer_setup:
  "compensated vis0 tab props n i issued s st \<Longrightarrow> unat i < length (adv_inst st) \<Longrightarrow>
   compensated vis0 tab props n i issued s (timer_setup i ts tk st)"
  by (simp add: compensated_def)

lemma Unregister_run:
  "inst_ok st i \<Longrightarrow> fault st = None \<Longrightarrow>
   Unregister i st =
     st\<lparr>hci_pending := hci_pending st @ [(HciEnable False i 0x00 0x00, DoNothing)],
        trace := trace st @ [HciCmd (HciEnable False i 0x00 0x00),
                   AlarmCancel (adv_raddr_timer (adv_inst st ! unat i))],
        alarms := (alarms st)[adv_raddr_timer (adv_inst st ! unat i) :=
                    (alarms st ! adv_raddr_timer (adv_inst st ! unat i))\<lparr>a_armed := None\<rparr>],
        adv_inst := (adv_inst st)[unat i := (adv_inst st ! unat i)\<lparr>in_use := False\<rparr>]\<rparr>"
  by (auto simp add: Unregister_def inst_ok_def Let_def hci_send_def alarm_cancel_def alarm_live_def upd_inst_def)

lemma map_in_use_free:
  "j < length xs \<Longrightarrow> map in_use (xs[j := (xs ! j)\<lparr>in_use := False\<rparr>]) = (map in_use xs)[j := False]"
  by (simp add: map_update)

lemma SAS_fail:
  assumes "inst_ok st i" "hci_pending st = []" "fault st = None"
    and "visible (trace st) = vis0 @ map HciCmd issued"
    and "(adv_inst st)[unat i := tab ! unat i] = tab"
    and "own_address_type (adv_inst st ! unat i) = own_address_type (tab ! unat i)"
    and "own_address (adv_inst st ! unat i) = own_address (tab ! unat i)"
    and "advertising_event_properties (adv_inst st ! unat i) = props"
  shows "compensated vis0 tab props n i issued s
           (run_cb (UserCb n) [0, 0, s] (Unregister i st))"
  using assms
  by (simp add: Unregister_run compensated_def inst_ok_def)

lemma SASF_EnableCb_run:
  "unat i < length (adv_inst st) \<Longrightarrow>
   run_cb (SASF_EnableCb (CreatorParams i (UserCb n) params ad sr pp pd ts tk)) [s] st =
     (if s \<noteq> 0 then log_event (CbRun n [0, 0, s]) (Unregister i st)
      else log_event (CbRun n [i, tx_power (adv_inst st ! unat i), s]) st)"
  by simp

lemma Finish_done:
  assumes ok: "inst_ok st i" and idle: "hci_pending st = []" "fault st = None"
    and vis: "visible (trace st) = vis0 @ map HciCmd issued"
    and txp: "tx_power (adv_inst st ! unat i) = txp"
    and tab: "(adv_inst st)[unat i := tab ! unat i] = tab"
      "own_address_type (adv_inst st ! unat i) = own_address_type (tab ! unat i)"
      "own_address (adv_inst st ! unat i) = own_address (tab ! unat i)"
      "advertising_event_properties (adv_inst st ! unat i) = props"
  shows "s \<noteq> 0 \<Longrightarrow>
           compensated vis0 tab props n i issued s
             (run_cb (SASF_EnableCb (CreatorParams i (UserCb n) params ad sr pp pd ts tk)) [s] st)"
    and "completed vis0 (map in_use (adv_inst st)) n [i, txp, 0] issued
             (run_cb (SASF_EnableCb (CreatorParams i (UserCb n) params ad sr pp pd ts tk)) [0] st)"
    and "fault (run_cb (SASF_EnableCb (CreatorParams i (UserCb n) params ad sr pp pd ts tk)) [s] st) = None"
    and "length (adv_inst (run_cb (SASF_EnableCb (CreatorParams i (UserCb n) params ad sr pp pd ts tk)) [s] st))
           = length (adv_inst st)"
proof -
  from ok have i: "unat i < length (adv_inst st)" by (simp add: inst_ok_def)
  show "compensated vis0 tab props n i issued s
             (run_cb (SASF_EnableCb (CreatorParams i (UserCb n) params ad sr pp pd ts tk)) [s] st)"
    if "s \<noteq> 0"
    using SAS_fail[OF ok idle vis tab, of n s] that i by (simp add: SASF_EnableCb_run)
  show "completed vis0 (map in_use (adv_inst st)) n [i, txp, 0] issued
             (run_cb (SASF_EnableCb (CreatorParams i (UserCb n) params ad sr pp pd ts tk)) [0] st)"
    using i idle vis txp by (simp add: SASF_EnableCb_run completed_def)
  show "fault (run_cb (SASF_EnableCb (CreatorParams i (UserCb n) params ad sr pp pd ts tk)) [s] st) = None"
    using i idle ok by (simp add: SASF_EnableCb_run Unregister_run)
  show "length (adv_inst (run_cb (SASF_EnableCb (CreatorParams i (UserCb n) params ad sr pp pd ts tk)) [s] st))
           = length (adv_inst st)"
    using i idle ok by (simp add: SASF_EnableCb_run Unregister_run)
qed

lemma Finish_chained:
  assumes ok: "inst_ok st i" and use: "in_use (adv_inst st ! unat i)"
    and idle: "hci_pending st = []" "fault st = None"
    and vis: "visible (trace st) = vis0 @ map HciCmd pre"
    and txp: "tx_power (adv_inst st ! unat i) = txp"
    and tab: "(adv_inst st)[unat i := tab ! unat i] = tab"
      "own_address_type (adv_inst st ! unat i) = own_address_type (tab ! unat i)"
      "own_address (adv_inst st ! unat i) = own_address (tab ! unat i)"
      "advertising_event_properties (adv_inst st ! unat i) = props"
  shows "chained vis0 pre [HciEnable True (inst_id (adv_inst st ! unat i)) 0x0000 0x00]
           (completed vis0 (map in_use (adv_inst st)) n [i, txp, 0])
           (compensated vis0 tab props n i)
           (StartAdvertisingSetFinish (CreatorParams i (UserCb n) params ad sr pp pd ts tk) st)"
proof -
  let ?c = "CreatorParams i (UserCb n) params ad sr pp pd ts tk"
  let ?cmd = "HciEnable True (inst_id (adv_inst st ! unat i)) 0x0000 0x00"
  let ?Q = "completed vis0 (map in_use (adv_inst st)) n [i, txp, 0]"
  let ?F = "compensated vis0 tab props n i"
  from ok have i: "i < inst_count st" "unat i < length (adv_inst st)"
    by (simp_all add: inst_ok_def)
  have fin: "StartAdvertisingSetFinish ?c st = Enable i True (SASF_EnableCb ?c) ts (BindInstId tk i) st"
    by (simp add: StartAdvertisingSetFinish.simps)
  show ?thesis
  proof (cases "ts \<noteq> 0")
    case True
    let ?k = "EnableWithTimerCb_bound i (SASF_EnableCb ?c) ts (BindInstId tk i)"
    let ?st6 = "add_cmds [?cmd] st"
    have e: "Enable i True (SASF_EnableCb ?c) ts (BindInstId tk i) st = hci_send ?cmd ?k st"
      using i use True by (rule Enable_timer)
    have ok6: "inst_ok ?st6 i"
      by (rule inst_ok_same[OF _ _ _ _ _ ok]) simp_all
    have st6: "hci_pending ?st6 = []" "fault ?st6 = None"
      "visible (trace ?st6) = vis0 @ map HciCmd (pre @ [?cmd])"
      "tx_power (adv_inst ?st6 ! unat i) = txp"
      "(adv_inst ?st6)[unat i := tab ! unat i] = tab"
      "own_address_type (adv_inst ?st6 ! unat i) = own_address_type (tab ! unat i)"
      "own_address (adv_inst ?st6 ! unat i) = own_address (tab ! unat i)"
      "advertising_event_properties (adv_inst ?st6 ! unat i) = props"
      using idle vis txp tab by simp_all
    note d = Finish_done[OF ok6 st6, where n=n and params=params and ad=ad and sr=sr and pp=pp and pd=pd and ts=ts and tk=tk]
    have c: "hci_complete s t (hci_send ?cmd ?k st) =
             timer_setup i ts (BindInstId tk i) (run_cb (SASF_EnableCb ?c) [s] ?st6)" for s t
    proof -
      have "hci_complete s t (hci_send ?cmd ?k st) = run_cb ?k [s] ?st6"
        by (rule hci_complete_hci_send_other) (simp_all add: idle)
      also have "\<dots> = timer_setup i ts (BindInstId tk i) (run_cb (SASF_EnableCb ?c) [s] ?st6)"
        using d(3)[of s] d(4)[of s] i(2) by (intro EnableWithTimerCb_run) simp_all
      finally show ?thesis .
    qed
    have F: "?F (pre @ [?cmd]) s (hci_complete s t (hci_send ?cmd ?k st))" if "s \<noteq> 0" for s t
      unfolding c using d(1)[OF that] d(4)[of s] i(2) by (intro compensated_timer_setup) simp_all
    have Q: "?Q (pre @ [?cmd]) (hci_complete 0 t (hci_send ?cmd ?k st))" for t
      unfolding c using d(2) by (intro completed_timer_setup) simp
    show ?thesis
      unfolding fin e using idle vis F Q by simp
  next
    case False
    show ?thesis
    proof (cases "timeout_timer (adv_inst st ! unat i)")
      case None
      let ?st6 = "add_cmds [?cmd] st"
      have e: "Enable i True (SASF_EnableCb ?c) ts (BindInstId tk i) st = hci_send ?cmd (SASF_EnableCb ?c) st"
        using i use False None idle by (intro Enable_plain) simp_all
      have ok6: "inst_ok ?st6 i"
        by (rule inst_ok_same[OF _ _ _ _ _ ok]) simp_all
      have st6: "hci_pending ?st6 = []" "fault ?st6 = None"
        "visible (trace ?st6) = vis0 @ map HciCmd (pre @ [?cmd])"
        "tx_power (adv_inst ?st6 ! unat i) = txp"
        "(adv_inst ?st6)[unat i := tab ! unat i] = tab"
        "own_address_type (adv_inst ?st6 ! unat i) = own_address_type (tab ! unat i)"
        "own_address (adv_inst ?st6 ! unat i) = own_address (tab ! unat i)"
        "advertising_event_properties (adv_inst ?st6 ! unat i) = props"
        using idle vis txp tab by simp_all
      note d = Finish_done[OF ok6 st6, where n=n and params=params and ad=ad and sr=sr and pp=pp and pd=pd and ts=ts and tk=tk]
      have c: "hci_complete s t (hci_send ?cmd (SASF_EnableCb ?c) st) = run_cb (SASF_EnableCb ?c) [s] ?st6" for s t
        by (rule hci_complete_hci_send_other) (simp_all add: idle)
      have F: "?F (pre @ [?cmd]) s (hci_complete s t (hci_send ?cmd (SASF_EnableCb ?c) st))" if "s \<noteq> 0" for s t
        unfolding c using d(1)[OF that] by simp
      have Q: "?Q (pre @ [?cmd]) (hci_complete 0 t (hci_send ?cmd (SASF_EnableCb ?c) st))" for t
        unfolding c using d(2) by simp
      show ?thesis
        unfolding fin e using idle vis F Q by simp
    next
      case (Some h)
      with ok have live: "alarm_live h st" and hr: "h \<noteq> adv_raddr_timer (adv_inst st ! unat i)"
        by (simp_all add: inst_ok_def)
      let ?st' = "upd_inst (unat i) (\<lambda>p. p\<lparr>timeout_timer := None\<rparr>)
          (st\<lparr>alarms := (alarms st)[h := (alarms st ! h)\<lparr>a_armed := None, a_freed := True\<rparr>],
              trace := trace st @ [AlarmCancel h, AlarmFree h]\<rparr>)"
      let ?st6 = "add_cmds [?cmd] ?st'"
      have e: "Enable i True (SASF_EnableCb ?c) ts (BindInstId tk i) st = hci_send ?cmd (SASF_EnableCb ?c) ?st'"
        using i use False Some live idle by (intro Enable_cancel) simp_all
      have ok6: "inst_ok ?st6 i"
        using ok hr i by (simp add: inst_ok_def alarm_live_def)
      have st6: "hci_pending ?st6 = []" "fault ?st6 = None"
        "visible (trace ?st6) = vis0 @ map HciCmd (pre @ [?cmd])"
        "tx_power (adv_inst ?st6 ! unat i) = txp"
        "(adv_inst ?st6)[unat i := tab ! unat i] = tab"
        "own_address_type (adv_inst ?st6 ! unat i) = own_address_type (tab ! unat i)"
        "own_address (adv_inst ?st6 ! unat i) = own_address (tab ! unat i)"
        "advertising_event_properties (adv_inst ?st6 ! unat i) = props"
        and fl: "map in_use (adv_inst ?st6) = map in_use (adv_inst st)"
        using idle vis txp i tab by (simp_all add: map_in_use_upd)
      note d = Finish_done[OF ok6 st6, where n=n and params=params and ad=ad and sr=sr and pp=pp and pd=pd and ts=ts and tk=tk, unfolded fl]
      have c: "hci_complete s t (hci_send ?cmd (SASF_EnableCb ?c) ?st') = run_cb (SASF_EnableCb ?c) [s] ?st6" for s t
        by (rule hci_complete_hci_send_other) (simp_all add: idle)
      have F: "?F (pre @ [?cmd]) s (hci_complete s t (hci_send ?cmd (SASF_EnableCb ?c) ?st'))" if "s \<noteq> 0" for s t
        unfolding c using d(1)[OF that] by simp
      have Q: "?Q (pre @ [?cmd]) (hci_complete 0 t (hci_send ?cmd (SASF_EnableCb ?c) ?st'))" for t
        unfolding c using d(2) by simp
      have p: "hci_pending ?st' = []" "fault ?st' = None" "visible (trace ?st') = vis0 @ map HciCmd pre"
        using idle vis by simp_all
      show ?thesis
        unfolding fin e using p F Q by (simp del: upd_inst_fields)
    qed
  qed
qed

lemma with_trace_fields [simp]:
  "add_cmds issued (st\<lparr>trace := tr\<rparr>) = st\<lparr>trace := tr @ map HciCmd issued\<rparr>"
  by (simp add: add_cmds_def)

lemma visible_map_HciCmd_o [simp]: "visible (map (HciCmd \<circ> f) xs) = map (HciCmd \<circ> f) xs"
  by (induction xs) simp_all

lemma chained_step:
  assumes "hci_pending st = []" "fault st = None" "visible (trace st) = vis0 @ map HciCmd pre"
    and "\<not> is_HciSetParameters c"
    and "\<And>s. s \<noteq> 0 \<Longrightarrow> F (pre @ [c]) s (run_cb k [s] (add_cmds [c] st))"
    and "chained vis0 (pre @ [c]) cmds Q F (run_cb k [0] (add_cmds [c] st))"
  shows "chained vis0 pre (c # cmds) Q F (hci_send c k st)"
  using assms by (simp add: hci_complete_hci_send_other del: run_cb.simps)

lemma SAS_chained:
  assumes ok: "inst_ok st i" and use: "in_use (adv_inst st ! unat i)"
    and idle: "hci_pending st = []" "fault st = None"
    and prep1: "SetData_prepare (configured (adv_inst st ! unat i) params txp) False ad = Some d1"
    and prep2: "SetData_prepare (configured (adv_inst st ! unat i) params txp) True sr = Some d2"
  shows "run_cb (SAS_RegisterCb (CreatorParams i0 (UserCb n) params ad sr pp pd ts tk)) [i, 0] st =
           hci_send (SetParameters_cmd (adv_inst st ! unat i) params)
             (SAS_SetParametersCb (CreatorParams i (UserCb n) params ad sr pp pd ts tk))
             (upd_inst (unat i)
                (\<lambda>p. p\<lparr>advertising_event_properties := ucast (p_advertising_event_properties params),
                        tx_power := p_tx_power params\<rparr>) st)"
    and "chained (visible (trace st)) [SetParameters_cmd (adv_inst st ! unat i) params]
           (tl (StartAdvertisingSet_script (adv_inst st ! unat i) i params d1 d2 pp pd))
           (completed (visible (trace st)) (map in_use (adv_inst st)) n [i, txp, 0])
           (compensated (visible (trace st)) (adv_inst st) (ucast (p_advertising_event_properties params)) n i)
           (hci_complete 0 txp
              (run_cb (SAS_RegisterCb (CreatorParams i0 (UserCb n) params ad sr pp pd ts tk)) [i, 0] st))"
    and "s \<noteq> 0 \<Longrightarrow>
         compensated (visible (trace st)) (adv_inst st) (ucast (p_advertising_event_properties params)) n i
           [SetParameters_cmd (adv_inst st ! unat i) params] s
           (hci_complete s t
              (run_cb (SAS_RegisterCb (CreatorParams i0 (UserCb n) params ad sr pp pd ts tk)) [i, 0] st))"
proof -
  let ?p = "adv_inst st ! unat i"
  let ?c = "CreatorParams i (UserCb n) params ad sr pp pd ts tk"
  let ?vis0 = "visible (trace st)"
  let ?cmdP = "SetParameters_cmd ?p params"
  let ?cmdR = "HciSetRandomAddress i (own_address ?p)"
  let ?cmdE = "HciEnable True (inst_id ?p) 0x0000 0x00"
  let ?cmdPP = "HciSetPeriodicAdvertisingParameters i (pp_min_interval pp) (pp_max_interval pp)
                  (pp_periodic_advertising_properties pp)"
  let ?cmdPE = "HciSetPeriodicAdvertisingEnable 1 i"
  let ?data1 = "data_cmds (SetDataAdvDataSender False) i d1"
  let ?data2 = "data_cmds (SetDataAdvDataSender True) i d2"
  let ?data3 = "data_cmds HciSetPeriodicAdvertisingDataSender i pd"
  let ?Q = "completed ?vis0 (map in_use (adv_inst st)) n [i, txp, 0]"
  let ?F = "compensated ?vis0 (adv_inst st) (ucast (p_advertising_event_properties params)) n i"
  from ok have i: "i < inst_count st" "unat i < length (adv_inst st)"
    by (simp_all add: inst_ok_def)
  let ?st1 = "upd_inst (unat i)
          (\<lambda>p. p\<lparr>advertising_event_properties := ucast (p_advertising_event_properties params),
                  tx_power := p_tx_power params\<rparr>) st"
  show S: "run_cb (SAS_RegisterCb (CreatorParams i0 (UserCb n) params ad sr pp pd ts tk)) [i, 0] st =
           hci_send ?cmdP (SAS_SetParametersCb ?c) ?st1"
    using i use by (simp add: SetParameters_send set_c_inst_id_def)
  have flags1: "map in_use (adv_inst ?st1) = map in_use (adv_inst st)"
    using i by (simp add: map_update list_update_same_conv)
  have ok1: "inst_ok (add_cmds [?cmdP] ?st1) i"
    using i by (intro inst_ok_same[OF _ _ _ _ _ ok]) simp_all
  show "?F [?cmdP] s (hci_complete s t
          (run_cb (SAS_RegisterCb (CreatorParams i0 (UserCb n) params ad sr pp pd ts tk)) [i, 0] st))"
    if "s \<noteq> 0"
  proof -
    have "hci_complete s t (hci_send ?cmdP (SAS_SetParametersCb ?c) ?st1) =
          log_event (CbRun n [0, 0, s]) (Unregister i (add_cmds [?cmdP] ?st1))"
      using that idle by (simp add: hci_complete_hci_send SetParameters_cmd_def)
    moreover have "?F [?cmdP] s (run_cb (UserCb n) [0, 0, s] (Unregister i (add_cmds [?cmdP] ?st1)))"
      using i idle
      by (intro SAS_fail[OF ok1]) simp_all
    ultimately show ?thesis unfolding S by simp
  qed
  define B where "B tr = (upd_inst (unat i) (\<lambda>p. p\<lparr>tx_power := txp\<rparr>) ?st1)\<lparr>trace := tr\<rparr>" for tr
  have B: "hci_pending (B tr) = []" "fault (B tr) = None" "inst_count (B tr) = inst_count st"
    "adv_inst (B tr) ! unat i = configured ?p params txp"
    "map in_use (adv_inst (B tr)) = map in_use (adv_inst st)"
    "trace (B tr) = tr" "add_cmds issued (B tr) = B (tr @ map HciCmd issued)"
    "length (adv_inst (B tr)) = length (adv_inst st)" for tr issued
    using i idle by (simp_all add: B_def configured_def map_update list_update_same_conv)
  have T: "(adv_inst (B tr))[unat i := adv_inst st ! unat i] = adv_inst st"
    "own_address_type (adv_inst (B tr) ! unat i) = own_address_type (adv_inst st ! unat i)"
    "own_address (adv_inst (B tr) ! unat i) = own_address (adv_inst st ! unat i)"
    "advertising_event_properties (adv_inst (B tr) ! unat i) = ucast (p_advertising_event_properties params)" for tr
    using i by (simp_all add: B_def configured_def)
  have okB: "inst_ok (B tr) i" for tr
    using i by (intro inst_ok_same[OF _ _ _ _ _ ok]) (simp_all add: B_def)
  have useB: "in_use (adv_inst (B tr) ! unat i)" "tx_power (adv_inst (B tr) ! unat i) = txp"
    "inst_id (adv_inst (B tr) ! unat i) = inst_id ?p" for tr
    using use by (simp_all add: B configured_def)
  have iB: "i < inst_count (B tr)" "unat i < length (adv_inst (B tr))" for tr
    using i by (simp_all add: B)
  have C1: "hci_complete 0 txp (hci_send ?cmdP (SAS_SetParametersCb ?c) ?st1) =
            hci_send ?cmdR (SAS_SetRandomAddressCb ?c) (B (trace st @ [HciCmd ?cmdP]))"
    using i idle by (simp add: hci_complete_hci_send SetParameters_cmd_def Let_def B_def add_cmds_def upd_inst_def)
  have fail: "?F issued s (log_event (CbRun n [0, 0, s]) (Unregister i (B tr)))"
    if "visible tr = ?vis0 @ map HciCmd issued" for tr issued s
    using SAS_fail[OF okB B(1,2) _ T, of tr ?vis0 issued n s] that by (simp add: B)
  have fin: "chained ?vis0 pre [?cmdE] ?Q ?F (StartAdvertisingSetFinish ?c (B tr))"
    if "visible tr = ?vis0 @ map HciCmd pre" for tr pre
  proof -
    have "chained ?vis0 pre [HciEnable True (inst_id (adv_inst (B tr) ! unat i)) 0x0000 0x00]
            (completed ?vis0 (map in_use (adv_inst (B tr))) n [i, txp, 0])
            ?F
            (StartAdvertisingSetFinish ?c (B tr))"
      by (rule Finish_chained[OF okB useB(1) B(1,2) _ useB(2) T]) (simp add: B(6) that)
    then show ?thesis unfolding useB(3) B(5) .
  qed
  have per: "chained ?vis0 pre (periodic_cmds i pp pd @ [?cmdE]) ?Q ?F (run_cb (SAS_ScanRspCb ?c) [0] (B tr))"
    if vis: "visible tr = ?vis0 @ map HciCmd pre" for tr pre
  proof (cases "pp_enable pp")
    case False
    then show ?thesis using fin[OF vis] by (simp add: periodic_cmds_def)
  next
    case True
    have en: "chained ?vis0 pre' [?cmdPE, ?cmdE] ?Q ?F (run_cb (SASP_DataCb ?c) [0] (B tr'))"
      if v: "visible tr' = ?vis0 @ map HciCmd pre'" for tr' pre'
    proof -
      have r: "run_cb (SASP_DataCb ?c) [0] (B tr') = hci_send ?cmdPE (SASP_EnableCb ?c) (B tr')"
        by (simp add: SetPeriodicAdvertisingEnable_def)
      have v': "visible (tr' @ [HciCmd ?cmdPE]) = ?vis0 @ map HciCmd (pre' @ [?cmdPE])"
        using v by simp
      show ?thesis
        unfolding r
      proof (rule chained_step)
        show "hci_pending (B tr') = []" "fault (B tr') = None"
          "visible (trace (B tr')) = ?vis0 @ map HciCmd pre'" "\<not> is_HciSetParameters ?cmdPE"
          using v by (simp_all add: B)
        show "?F (pre' @ [?cmdPE]) s (run_cb (SASP_EnableCb ?c) [s] (add_cmds [?cmdPE] (B tr')))"
          if "s \<noteq> 0" for s
          using fail[OF v', of s] that by (simp add: B)
        show "chained ?vis0 (pre' @ [?cmdPE]) [?cmdE] ?Q ?F
                (run_cb (SASP_EnableCb ?c) [0] (add_cmds [?cmdPE] (B tr')))"
          using fin[OF v'] by (simp add: B del: chained.simps)
      qed
    qed
    have dat: "chained ?vis0 pre' (?data3 @ [?cmdPE, ?cmdE]) ?Q ?F (run_cb (SASP_ParametersCb ?c) [0] (B tr'))"
      if v: "visible tr' = ?vis0 @ map HciCmd pre'" for tr' pre'
    proof -
      have "run_cb (SASP_ParametersCb ?c) [0] (B tr') =
            DivideAndSendDataRecursively True i pd 0 (SASP_DataCb ?c) HciSetPeriodicAdvertisingDataSender 0 (B tr')"
        by (simp add: SetPeriodicAdvertisingData.simps DivideAndSendData.simps)
      moreover have "chained ?vis0 pre'
          (map (sender_cmd HciSetPeriodicAdvertisingDataSender i) (DivideAndSendData_chunks True pd 0) @ [?cmdPE, ?cmdE])
          ?Q ?F
          (DivideAndSendDataRecursively True i pd 0 (SASP_DataCb ?c) HciSetPeriodicAdvertisingDataSender 0 (B tr'))"
      proof (rule DASR_chained[OF refl])
        show "hci_pending (B tr') = []" "fault (B tr') = None" "0 \<le> length pd"
          "visible (trace (B tr')) = ?vis0 @ map HciCmd pre'"
          using v by (simp_all add: B)
        show "?F (pre' @ issued) s (run_cb (SASP_DataCb ?c) [s] (add_cmds issued (B tr')))"
          if "s \<noteq> 0" for issued s
          using that fail[of "tr' @ map HciCmd issued" "pre' @ issued" s] v by (simp add: B)
        show "chained ?vis0 (pre' @ map (sender_cmd HciSetPeriodicAdvertisingDataSender i) (DivideAndSendData_chunks True pd 0))
               [?cmdPE, ?cmdE] ?Q ?F
               (run_cb (SASP_DataCb ?c) [0]
                 (add_cmds (map (sender_cmd HciSetPeriodicAdvertisingDataSender i) (DivideAndSendData_chunks True pd 0)) (B tr')))"
          unfolding B using v by (intro en) simp
      qed
      ultimately show ?thesis by (simp add: data_cmds_def)
    qed
    have v': "visible (tr @ [HciCmd ?cmdPP]) = ?vis0 @ map HciCmd (pre @ [?cmdPP])"
      using vis by simp
    have "chained ?vis0 pre (?cmdPP # ?data3 @ [?cmdPE, ?cmdE]) ?Q ?F
            (hci_send ?cmdPP (SASP_ParametersCb ?c) (B tr))"
    proof (rule chained_step)
      show "hci_pending (B tr) = []" "fault (B tr) = None"
        "visible (trace (B tr)) = ?vis0 @ map HciCmd pre" "\<not> is_HciSetParameters ?cmdPP"
        using vis by (simp_all add: B)
      show "?F (pre @ [?cmdPP]) s (run_cb (SASP_ParametersCb ?c) [s] (add_cmds [?cmdPP] (B tr)))"
        if "s \<noteq> 0" for s
        using fail[OF v', of s] that by (simp add: B)
      show "chained ?vis0 (pre @ [?cmdPP]) (?data3 @ [?cmdPE, ?cmdE]) ?Q ?F
              (run_cb (SASP_ParametersCb ?c) [0] (add_cmds [?cmdPP] (B tr)))"
        using dat[OF v'] by (simp add: B del: chained.simps run_cb.simps)
    qed
    then show ?thesis
      using True
      by (simp add: periodic_cmds_def StartAdvertisingSetPeriodicPart_def SetPeriodicAdvertisingParameters_def)
  qed
  have scan: "chained ?vis0 pre (?data2 @ periodic_cmds i pp pd @ [?cmdE]) ?Q ?F
               (run_cb (SAS_AdvDataCb ?c) [0] (B tr))"
    if v: "visible tr = ?vis0 @ map HciCmd pre" for tr pre
  proof -
    have "run_cb (SAS_AdvDataCb ?c) [0] (B tr) =
          DivideAndSendDataRecursively True i d2 0 (SAS_ScanRspCb ?c) (SetDataAdvDataSender True) 0 (B tr)"
      using iB prep2 by (simp add: SetData_send B)
    moreover have "chained ?vis0 pre
        (map (sender_cmd (SetDataAdvDataSender True) i) (DivideAndSendData_chunks True d2 0) @
           (periodic_cmds i pp pd @ [?cmdE])) ?Q ?F
        (DivideAndSendDataRecursively True i d2 0 (SAS_ScanRspCb ?c) (SetDataAdvDataSender True) 0 (B tr))"
    proof (rule DASR_chained[OF refl])
      show "hci_pending (B tr) = []" "fault (B tr) = None" "0 \<le> length d2"
        "visible (trace (B tr)) = ?vis0 @ map HciCmd pre"
        using v by (simp_all add: B)
      show "?F (pre @ issued) s (run_cb (SAS_ScanRspCb ?c) [s] (add_cmds issued (B tr)))"
        if "s \<noteq> 0" for issued s
        using that fail[of "tr @ map HciCmd issued" "pre @ issued" s] v by (simp add: B)
      show "chained ?vis0 (pre @ map (sender_cmd (SetDataAdvDataSender True) i) (DivideAndSendData_chunks True d2 0))
             (periodic_cmds i pp pd @ [?cmdE]) ?Q ?F
             (run_cb (SAS_ScanRspCb ?c) [0]
               (add_cmds (map (sender_cmd (SetDataAdvDataSender True) i) (DivideAndSendData_chunks True d2 0)) (B tr)))"
        unfolding B using v by (intro per) simp
    qed
    ultimately show ?thesis by (simp add: data_cmds_def)
  qed
  have adv: "chained ?vis0 pre (?data1 @ ?data2 @ periodic_cmds i pp pd @ [?cmdE]) ?Q ?F
               (run_cb (SAS_SetRandomAddressCb ?c) [0] (B tr))"
    if v: "visible tr = ?vis0 @ map HciCmd pre" for tr pre
  proof -
    have "run_cb (SAS_SetRandomAddressCb ?c) [0] (B tr) =
          DivideAndSendDataRecursively True i d1 0 (SAS_AdvDataCb ?c) (SetDataAdvDataSender False) 0 (B tr)"
      using iB prep1 by (simp add: SetData_send B)
    moreover have "chained ?vis0 pre
        (map (sender_cmd (SetDataAdvDataSender False) i) (DivideAndSendData_chunks True d1 0) @
           (?data2 @ periodic_cmds i pp pd @ [?cmdE])) ?Q ?F
        (DivideAndSendDataRecursively True i d1 0 (SAS_AdvDataCb ?c) (SetDataAdvDataSender False) 0 (B tr))"
    proof (rule DASR_chained[OF refl])
      show "hci_pending (B tr) = []" "fault (B tr) = None" "0 \<le> length d1"
        "visible (trace (B tr)) = ?vis0 @ map HciCmd pre"
        using v by (simp_all add: B)
      show "?F (pre @ issued) s (run_cb (SAS_AdvDataCb ?c) [s] (add_cmds issued (B tr)))"
        if "s \<noteq> 0" for issued s
        using that fail[of "tr @ map HciCmd issued" "pre @ issued" s] v by (simp add: B)
      show "chained ?vis0 (pre @ map (sender_cmd (SetDataAdvDataSender False) i) (DivideAndSendData_chunks True d1 0))
             (?data2 @ periodic_cmds i pp pd @ [?cmdE]) ?Q ?F
             (run_cb (SAS_AdvDataCb ?c) [0]
               (add_cmds (map (sender_cmd (SetDataAdvDataSender False) i) (DivideAndSendData_chunks True d1 0)) (B tr)))"
        unfolding B using v by (intro scan) simp
    qed
    ultimately show ?thesis by (simp add: data_cmds_def)
  qed
  have rnd: "chained ?vis0 [?cmdP] (?cmdR # ?data1 @ ?data2 @ periodic_cmds i pp pd @ [?cmdE]) ?Q ?F
               (hci_send ?cmdR (SAS_SetRandomAddressCb ?c) (B (trace st @ [HciCmd ?cmdP])))"
  proof -
    let ?tr = "trace st @ [HciCmd ?cmdP]"
    have v': "visible (?tr @ [HciCmd ?cmdR]) = ?vis0 @ map HciCmd ([?cmdP] @ [?cmdR])"
      by simp
    show ?thesis
    proof (rule chained_step)
      show "hci_pending (B ?tr) = []" "fault (B ?tr) = None"
        "visible (trace (B ?tr)) = ?vis0 @ map HciCmd [?cmdP]" "\<not> is_HciSetParameters ?cmdR"
        by (simp_all add: B)
      show "?F ([?cmdP] @ [?cmdR]) s (run_cb (SAS_SetRandomAddressCb ?c) [s] (add_cmds [?cmdR] (B ?tr)))"
        if "s \<noteq> 0" for s
        using fail[OF v', of s] that by (simp add: B)
      show "chained ?vis0 ([?cmdP] @ [?cmdR]) (?data1 @ ?data2 @ periodic_cmds i pp pd @ [?cmdE]) ?Q ?F
              (run_cb (SAS_SetRandomAddressCb ?c) [0] (add_cmds [?cmdR] (B ?tr)))"
        using adv[OF v'] by (simp add: B del: chained.simps run_cb.simps)
    qed
  qed
  show "chained ?vis0 [?cmdP] (tl (StartAdvertisingSet_script ?p i params d1 d2 pp pd)) ?Q ?F
           (hci_complete 0 txp
              (run_cb (SAS_RegisterCb (CreatorParams i0 (UserCb n) params ad sr pp pd ts tk)) [i, 0] st))"
    unfolding S C1 using rnd by (simp add: StartAdvertisingSet_script_def)
qed

lemma strictly_ordered_chain:
  assumes p: "map fst (hci_pending st0) = [c0]" "fault st0 = None"
      "visible (trace st0) = vis0 @ [HciCmd c0]"
    and f: "\<And>s t. s \<noteq> 0 \<Longrightarrow> F [c0] s (hci_complete s t st0)"
    and c: "chained vis0 [c0] cmds Q F (hci_complete 0 txp st0)"
  shows "strictly_ordered vis0 (c0 # cmds) Q F txp st0"
  unfolding strictly_ordered_def
proof (intro conjI allI impI)
  fix k assume k: "k < length (c0 # cmds)"
  show "map fst (hci_pending (drive (replicate k (0, txp)) st0)) = [(c0 # cmds) ! k]"
    using k p chained_drive[OF c, of "k - 1" txp] by (cases k) simp_all
  show "fault (drive (replicate k (0, txp)) st0) = None"
    using k p chained_drive[OF c, of "k - 1" txp] by (cases k) simp_all
  show "visible (trace (drive (replicate k (0, txp)) st0)) = vis0 @ map HciCmd (take (Suc k) (c0 # cmds))"
    using k p chained_drive[OF c, of "k - 1" txp] by (cases k) simp_all
  fix s t assume s: "s \<noteq> (0 :: u8)"
  show "F (take (Suc k) (c0 # cmds)) s (drive (replicate k (0, txp) @ [(s, t)]) st0)"
  proof (cases k)
    case 0
    then show ?thesis using f[OF s] by simp
  next
    case (Suc k')
    with k have "k' < length cmds" by simp
    with chained_drive[OF c, of k' txp] s
    have "F ([c0] @ take (Suc k') cmds) s (drive (replicate k' (0, txp) @ [(s, t)]) (hci_complete 0 txp st0))"
      by blast
    then show ?thesis using Suc by simp
  qed
next
  show "Q (c0 # cmds) (drive (replicate (length (c0 # cmds)) (0, txp)) st0)"
    using chained_drive[OF c, of "length cmds" txp] by simp
qed

lemma SA_fail_first:
  assumes ok: "inst_ok st i" and use: "in_use (adv_inst st ! unat i)"
    and idle: "hci_pending st = []" "fault st = None" and s: "s \<noteq> 0"
  shows "reported (visible (trace st)) n [SetParameters_cmd (adv_inst st ! unat i) params] [s]
           (hci_complete s t (StartAdvertising i (UserCb n) params ad sr ts tk st))"
proof -
  from ok have i: "i < inst_count st" "unat i < length (adv_inst st)"
    by (simp_all add: inst_ok_def)
  show ?thesis
    using i use idle s
    by (simp add: StartAdvertising_def SetParameters_send hci_complete_hci_send
        SetParameters_cmd_def reported_def)
qed

lemma SA_ordered:
  assumes ok: "inst_ok st i" and use: "in_use (adv_inst st ! unat i)"
    and idle: "hci_pending st = []" "fault st = None"
    and prep1: "SetData_prepare (configured (adv_inst st ! unat i) params txp) False ad = Some d1"
    and prep2: "SetData_prepare (configured (adv_inst st ! unat i) params txp) True sr = Some d2"
  shows "strictly_ordered (visible (trace st))
           (StartAdvertising_script (adv_inst st ! unat i) i params d1 d2)
           (\<lambda>issued. reported (visible (trace st)) n issued [0])
           (\<lambda>issued s. reported (visible (trace st)) n issued [s]) txp
           (StartAdvertising i (UserCb n) params ad sr ts tk st)"
proof -
  let ?p = "adv_inst st ! unat i"
  let ?st0 = "StartAdvertising i (UserCb n) params ad sr ts tk st"
  note sa = SA_chained[OF ok use idle prep1 prep2, of n ts tk]
  have scr: "StartAdvertising_script ?p i params d1 d2 =
             SetParameters_cmd ?p params # tl (StartAdvertising_script ?p i params d1 d2)"
    by (simp add: StartAdvertising_script_def)
  have "strictly_ordered (visible (trace st))
          (SetParameters_cmd ?p params # tl (StartAdvertising_script ?p i params d1 d2))
          (\<lambda>issued. reported (visible (trace st)) n issued [0])
          (\<lambda>issued s. reported (visible (trace st)) n issued [s]) txp ?st0"
  proof (rule strictly_ordered_chain)
    show "map fst (hci_pending ?st0) = [SetParameters_cmd ?p params]" "fault ?st0 = None"
      "visible (trace ?st0) = visible (trace st) @ [HciCmd (SetParameters_cmd ?p params)]"
      unfolding sa(1) using idle by simp_all
    show "reported (visible (trace st)) n [SetParameters_cmd ?p params] [s] (hci_complete s t ?st0)"
      if "s \<noteq> 0" for s t
      using SA_fail_first[OF ok use idle that] .
    show "chained (visible (trace st)) [SetParameters_cmd ?p params]
            (tl (StartAdvertising_script ?p i params d1 d2))
            (\<lambda>issued. reported (visible (trace st)) n issued [0])
            (\<lambda>issued s. reported (visible (trace st)) n issued [s]) (hci_complete 0 txp ?st0)"
      by (rule sa(2))
  qed
  with scr show ?thesis by simp
qed

lemma SAS_ordered:
  assumes ok: "inst_ok st i" and use: "in_use (adv_inst st ! unat i)"
    and idle: "hci_pending st = []" "fault st = None"
    and prep1: "SetData_prepare (configured (adv_inst st ! unat i) params txp) False ad = Some d1"
    and prep2: "SetData_prepare (configured (adv_inst st ! unat i) params txp) True sr = Some d2"
  shows "strictly_ordered (visible (trace st))
           (StartAdvertisingSet_script (adv_inst st ! unat i) i params d1 d2 pp pd)
           (completed (visible (trace st)) (map in_use (adv_inst st)) n [i, txp, 0])
           (compensated (visible (trace st)) (adv_inst st) (ucast (p_advertising_event_properties params)) n i) txp
           (run_cb (SAS_RegisterCb (CreatorParams i0 (UserCb n) params ad sr pp pd ts tk)) [i, 0] st)"
proof -
  let ?p = "adv_inst st ! unat i"
  let ?st0 = "run_cb (SAS_RegisterCb (CreatorParams i0 (UserCb n) params ad sr pp pd ts tk)) [i, 0] st"
  note sas = SAS_chained[OF ok use idle prep1 prep2, where ?i0.0=i0 and n=n and pp=pp and pd=pd and ts=ts and tk=tk]
  have scr: "StartAdvertisingSet_script ?p i params d1 d2 pp pd =
             SetParameters_cmd ?p params # tl (StartAdvertisingSet_script ?p i params d1 d2 pp pd)"
    by (simp add: StartAdvertisingSet_script_def)
  have "strictly_ordered (visible (trace st))
          (SetParameters_cmd ?p params # tl (StartAdvertisingSet_script ?p i params d1 d2 pp pd))
          (completed (visible (trace st)) (map in_use (adv_inst st)) n [i, txp, 0])
          (compensated (visible (trace st)) (adv_inst st) (ucast (p_advertising_event_properties params)) n i) txp ?st0"
  proof (rule strictly_ordered_chain)
    show "map fst (hci_pending ?st0) = [SetParameters_cmd ?p params]" "fault ?st0 = None"
      "visible (trace ?st0) = visible (trace st) @ [HciCmd (SetParameters_cmd ?p params)]"
      unfolding sas(1) using idle by simp_all
    show "compensated (visible (trace st)) (adv_inst st) (ucast (p_advertising_event_properties params)) n i
            [SetParameters_cmd ?p params] s (hci_complete s t ?st0)"
      if "s \<noteq> 0" for s t
      using sas(3)[OF that] .
    show "chained (visible (trace st)) [SetParameters_cmd ?p params]
            (tl (StartAdvertisingSet_script ?p i params d1 d2 pp pd))
            (completed (visible (trace st)) (map in_use (adv_inst st)) n [i, txp, 0])
            (compensated (visible (trace st)) (adv_inst st) (ucast (p_advertising_event_properties params)) n i)
            (hci_complete 0 txp ?st0)"
      by (rule sas(2))
  qed
  with scr show ?thesis by simp
qed

lemma SetData_prepare_cong:
  "advertising_event_properties p = advertising_event_properties q \<Longrightarrow>
   timeout_s p = timeout_s q \<Longrightarrow> tx_power p = tx_power q \<Longrightarrow>
   SetData_prepare p is_scan_rsp data = SetData_prepare q is_scan_rsp data"
  by (simp add: SetData_prepare_def SetData_flags_def)

lemma StartAdvertisingSet_public:
  assumes wf: "length (adv_inst st) = unat (inst_count st)"
    and ff: "first_free (adv_inst st) (unat i)"
    and id: "inst_id (adv_inst st ! unat i) = i"
    and spt: "\<not> BLE_PRIVACY_SPT (plat st)"
  shows "StartAdvertisingSet k params ad sr pp pd ts tk st =
           run_cb (SAS_RegisterCb (CreatorParams 0 k params ad sr pp pd ts tk)) [i, 0]
             (upd_inst (unat i) (registered_public (plat st)) st)"
proof -
  from ff have i: "unat i < length (adv_inst st)" "\<not> in_use (adv_inst st ! unat i)"
    and before: "\<forall>j. 0 \<le> j \<and> j < unat i \<longrightarrow> in_use (adv_inst st ! j)"
    by (simp_all add: first_free_def)
  have "RegisterAdvertiser_loop 0 (SAS_RegisterCb (CreatorParams 0 k params ad sr pp pd ts tk)) st =
        RegisterAdvertiser_loop (unat i) (SAS_RegisterCb (CreatorParams 0 k params ad sr pp pd ts tk)) st"
    by (rule Register_loop_skip[OF _ i(1) wf before]) simp
  also have "\<dots> = run_cb (SAS_RegisterCb (CreatorParams 0 k params ad sr pp pd ts tk)) [i, 0]
             (upd_inst (unat i) (registered_public (plat st)) st)"
    unfolding Register_loop_free[OF i(1) wf i(2)]
    using spt id i(1)
    by (simp add: Let_def BTM_BLE_MULTI_ADV_SUCCESS_def upd_inst_def registered_public_def
        del: run_cb.simps)
  finally show ?thesis
    by (simp add: StartAdvertisingSet_def RegisterAdvertiser_def Let_def del: run_cb.simps)
qed

lemma strictly_ordered_mono:
  assumes "strictly_ordered vis0 script Q F txp st0"
    and "\<And>issued s x. F issued s x \<Longrightarrow> F' issued s x"
    and "\<And>issued x. Q issued x \<Longrightarrow> Q' issued x"
  shows "strictly_ordered vis0 script Q' F' txp st0"
  using assms unfolding strictly_ordered_def by blast

lemma store_eq:
  assumes "unat i < length (adv_inst st)"
    and "SMP_Encrypt (plat st) (BTM_GetDeviceIDRoot (plat st)) (take 3 (rpa_rand rand)) = Some out"
  shows "\<exists>a. OnRpaGenerationComplete_store i rand st =
              upd_inst (unat i) (\<lambda>p. p\<lparr>own_address := a\<rparr>) st"
  using assms
  by (auto simp add: OnRpaGenerationComplete_store_def Let_def upd_inst_def intro!: exI)

lemma run_OnRpaGenerationComplete:
  "length rand = 8 \<Longrightarrow> fault (OnRpaGenerationComplete_store i rand st) = None \<Longrightarrow>
   run_cb (OnRpaGenerationComplete_bound i k) rand st =
     run_cb k [] (OnRpaGenerationComplete_store i rand st)"
  by (simp add: Let_def)

lemma run_RegisterAdvertiser_lambda:
  "p < length (adv_inst st) \<Longrightarrow>
   fault (alarm_set_on_queue (adv_raddr_timer (adv_inst st ! p))
            (BTM_BLE_PRIVATE_ADDR_INT_MS (plat st)) (btm_ble_adv_raddr_timer_timeout p) st) = None \<Longrightarrow>
   run_cb (RegisterAdvertiser_lambda p k) [] st =
     run_cb k [inst_id (adv_inst (alarm_set_on_queue (adv_raddr_timer (adv_inst st ! p))
                  (BTM_BLE_PRIVATE_ADDR_INT_MS (plat st)) (btm_ble_adv_raddr_timer_timeout p) st) ! p),
               BTM_BLE_MULTI_ADV_SUCCESS]
       (alarm_set_on_queue (adv_raddr_timer (adv_inst st ! p))
          (BTM_BLE_PRIVATE_ADDR_INT_MS (plat st)) (btm_ble_adv_raddr_timer_timeout p) st)"
  by (simp add: Let_def)

lemma script_cong:
  "inst_id p = inst_id q \<Longrightarrow> own_address_type p = own_address_type q \<Longrightarrow>
   own_address p = own_address q \<Longrightarrow>
   StartAdvertisingSet_script p i params d1 d2 pp pd =
   StartAdvertisingSet_script q i params d1 d2 pp pd"
  by (simp add: StartAdvertisingSet_script_def SetParameters_cmd_def)

lemma Register_settled:
  assumes wf: "length (adv_inst st) = unat (inst_count st)"
    and ff: "first_free (adv_inst st) (unat i)"
    and id: "inst_id (adv_inst st ! unat i) = i"
    and ok: "inst_ok st i"
    and idle: "hci_pending st = []" "fault st = None"
    and cfg: "BLE_PRIVACY_SPT (plat st) \<longrightarrow>
                BTM_BleLocalPrivacyEnabled (plat st) \<and> rpa_pending st = [] \<and> length rand = 8 \<and>
                SMP_Encrypt (plat st) (BTM_GetDeviceIDRoot (plat st)) (take 3 (rpa_rand rand)) \<noteq> None"
  shows "\<exists>st_reg.
           answer_rpa (plat st) rand (StartAdvertisingSet k params ad sr pp pd ts tk st) =
             run_cb (SAS_RegisterCb (CreatorParams 0 k params ad sr pp pd ts tk)) [i, 0] st_reg \<and>
           inst_ok st_reg i \<and> hci_pending st_reg = [] \<and> fault st_reg = None \<and>
           visible (trace st_reg) = visible (trace st) \<and>
           map in_use (adv_inst st_reg) = (map in_use (adv_inst st))[unat i := True] \<and>
           in_use (adv_inst st_reg ! unat i) \<and>
           advertising_event_properties (adv_inst st_reg ! unat i) =
             advertising_event_properties (adv_inst st ! unat i) \<and>
           timeout_s (adv_inst st_reg ! unat i) = timeout_s (adv_inst st ! unat i) \<and>
           tx_power (adv_inst st_reg ! unat i) = tx_power (adv_inst st ! unat i) \<and>
           (adv_inst st_reg)[unat i := adv_inst st ! unat i] = adv_inst st"
proof (cases "BLE_PRIVACY_SPT (plat st)")
  case False
  let ?st = "upd_inst (unat i) (registered_public (plat st)) st"
  from ff have i: "unat i < length (adv_inst st)" "\<not> in_use (adv_inst st ! unat i)"
    by (simp_all add: first_free_def)
  have "answer_rpa (plat st) rand (StartAdvertisingSet k params ad sr pp pd ts tk st) =
          run_cb (SAS_RegisterCb (CreatorParams 0 k params ad sr pp pd ts tk)) [i, 0] ?st"
    using False StartAdvertisingSet_public[OF wf ff id False] by (simp add: answer_rpa_def)
  moreover have "inst_ok ?st i"
    using i by (intro inst_ok_same[OF _ _ _ _ _ ok]) (simp_all add: registered_public_def)
  moreover have "map in_use (adv_inst ?st) = (map in_use (adv_inst st))[unat i := True]"
    using i by (simp add: map_update registered_public_def)
  ultimately show ?thesis
    using idle i by (intro exI[of _ ?st]) (simp add: registered_public_def)
next
  case True
  with cfg obtain out where priv: "BTM_BleLocalPrivacyEnabled (plat st)"
    and rp: "rpa_pending st = []" and len: "length rand = 8"
    and enc: "SMP_Encrypt (plat st) (BTM_GetDeviceIDRoot (plat st)) (take 3 (rpa_rand rand)) = Some out"
    by auto
  let ?K = "SAS_RegisterCb (CreatorParams 0 k params ad sr pp pd ts tk)"
  let ?h = "adv_raddr_timer (adv_inst st ! unat i)"
  from ff have i: "unat i < length (adv_inst st)" "\<not> in_use (adv_inst st ! unat i)"
    and before: "\<forall>j. 0 \<le> j \<and> j < unat i \<longrightarrow> in_use (adv_inst st ! j)"
    by (simp_all add: first_free_def)
  from ok have live: "alarm_live ?h st" by (simp add: inst_ok_def)
  let ?b = "upd_inst (unat i) (\<lambda>p. p\<lparr>own_address_type := BLE_ADDR_RANDOM (plat st)\<rparr>)
              (upd_inst (unat i) (\<lambda>p. p\<lparr>in_use := True\<rparr>) st)"
  let ?c = "?b\<lparr>trace := trace st @ [RpaRequested], rpa_pending := []\<rparr>"
  have "RegisterAdvertiser_loop 0 ?K st = RegisterAdvertiser_loop (unat i) ?K st"
    by (rule Register_loop_skip[OF _ i(1) wf before]) simp
  also have "\<dots> = GenerateRpa i (RegisterAdvertiser_lambda (unat i) ?K) ?b"
    unfolding Register_loop_free[OF i(1) wf i(2)] using True priv id by (simp add: Let_def)
  finally have call: "StartAdvertisingSet k params ad sr pp pd ts tk st =
      GenerateRpa i (RegisterAdvertiser_lambda (unat i) ?K) ?b"
    by (simp add: StartAdvertisingSet_def RegisterAdvertiser_def Let_def)
  have ci: "unat i < length (adv_inst ?c)" "plat ?c = plat st" "fault ?c = None"
    using i idle by simp_all
  from store_eq[of i ?c rand out] ci enc obtain a where
    store: "OnRpaGenerationComplete_store i rand ?c = upd_inst (unat i) (\<lambda>p. p\<lparr>own_address := a\<rparr>) ?c"
    by auto
  let ?d = "upd_inst (unat i) (\<lambda>p. p\<lparr>own_address := a\<rparr>) ?c"
  let ?e = "alarm_set_on_queue ?h (BTM_BLE_PRIVATE_ADDR_INT_MS (plat st))
              (btm_ble_adv_raddr_timer_timeout (unat i)) ?d"
  have e: "fault ?e = None" "hci_pending ?e = []" "inst_count ?e = inst_count st"
    "length (adv_inst ?e) = length (adv_inst st)"
    "adv_inst ?e ! unat i = (adv_inst st ! unat i)\<lparr>in_use := True,
        own_address_type := BLE_ADDR_RANDOM (plat st), own_address := a\<rparr>"
    "visible (trace ?e) = visible (trace st)"
    "map in_use (adv_inst ?e) = (map in_use (adv_inst st))[unat i := True]"
    "(adv_inst ?e)[unat i := adv_inst st ! unat i] = adv_inst st"
    using i idle live
    by (simp_all add: alarm_set_on_queue_def alarm_live_def map_update)
  have oke: "inst_ok ?e i"
    using ok i live e(5)
    by (auto simp add: inst_ok_def alarm_set_on_queue_def alarm_live_def nth_list_update
        split: option.splits)
  have "rpa_complete rand (StartAdvertisingSet k params ad sr pp pd ts tk st) =
        run_cb (OnRpaGenerationComplete_bound i (RegisterAdvertiser_lambda (unat i) ?K)) rand ?c"
    unfolding call using rp len
    by (simp add: rpa_complete_def GenerateRpa_def btm_gen_resolvable_private_addr_def
        del: run_cb.simps)
  also have "\<dots> = run_cb (RegisterAdvertiser_lambda (unat i) ?K) [] ?d"
    unfolding store[symmetric]
    by (rule run_OnRpaGenerationComplete[OF len]) (simp add: store idle)
  also have "\<dots> = run_cb ?K [inst_id (adv_inst ?e ! unat i), BTM_BLE_MULTI_ADV_SUCCESS] ?e"
    using run_RegisterAdvertiser_lambda[of "unat i" ?d ?K] i e(1)
    by (simp del: run_cb.simps)
  also have "\<dots> = run_cb ?K [i, 0] ?e"
    unfolding e(5) using id by (simp add: BTM_BLE_MULTI_ADV_SUCCESS_def del: run_cb.simps)
  finally have "answer_rpa (plat st) rand (StartAdvertisingSet k params ad sr pp pd ts tk st) =
                run_cb ?K [i, 0] ?e"
    using True by (simp add: answer_rpa_def)
  then show ?thesis
    using oke e by (intro exI[of _ ?e]) simp
qed

lemma compensated_tab:
  assumes c: "compensated vis0 tab props n i issued s x"
    and t: "tab'[unat i := tab ! unat i] = tab"
    and f: "own_address_type (tab' ! unat i) = own_address_type (tab ! unat i)"
      "own_address (tab' ! unat i) = own_address (tab ! unat i)"
  shows "compensated vis0 tab' props n i issued s x"
proof -
  from c have x: "(adv_inst x)[unat i := tab ! unat i] = tab"
    by (simp add: compensated_def)
  have "(adv_inst x)[unat i := tab' ! unat i] = ((adv_inst x)[unat i := tab ! unat i])[unat i := tab' ! unat i]"
    by simp
  also have "\<dots> = (tab'[unat i := tab ! unat i])[unat i := tab' ! unat i]"
    unfolding x t ..
  also have "\<dots> = tab'"
    by simp
  finally show ?thesis
    using c f by (simp add: compensated_def)
qed

lemma StartAdvertisingSet_ordered_any:
  assumes wf: "length (adv_inst st) = unat (inst_count st)"
    and ff: "first_free (adv_inst st) (unat i)"
    and id: "inst_id (adv_inst st ! unat i) = i"
    and ok: "inst_ok st i"
    and idle: "hci_pending st = []" "fault st = None"
    and cfg: "BLE_PRIVACY_SPT (plat st) \<longrightarrow>
                BTM_BleLocalPrivacyEnabled (plat st) \<and> rpa_pending st = [] \<and> length rand = 8 \<and>
                SMP_Encrypt (plat st) (BTM_GetDeviceIDRoot (plat st)) (take 3 (rpa_rand rand)) \<noteq> None"
    and prep1: "SetData_prepare (configured (adv_inst st ! unat i) params txp) False ad = Some d1"
    and prep2: "SetData_prepare (configured (adv_inst st ! unat i) params txp) True sr = Some d2"
    and st0: "st0 = answer_rpa (plat st) rand (StartAdvertisingSet (UserCb n) params ad sr pp pd ts tk st)"
  shows "strictly_ordered (visible (trace st))
           (StartAdvertisingSet_script (adv_inst st0 ! unat i) i params d1 d2 pp pd)
           (completed (visible (trace st)) ((map in_use (adv_inst st))[unat i := True]) n [i, txp, 0])
           (compensated (visible (trace st)) (adv_inst st0)
              (ucast (p_advertising_event_properties params)) n i) txp st0"
    and "(adv_inst st0)[unat i := adv_inst st ! unat i] = adv_inst st"
proof -
  from Register_settled[OF wf ff id ok idle cfg, of "UserCb n" params ad sr pp pd ts tk]
  obtain st_reg where
    r: "st0 = run_cb (SAS_RegisterCb (CreatorParams 0 (UserCb n) params ad sr pp pd ts tk)) [i, 0] st_reg"
    and ok': "inst_ok st_reg i" and idle': "hci_pending st_reg = []" "fault st_reg = None"
    and vis: "visible (trace st_reg) = visible (trace st)"
    and fl: "map in_use (adv_inst st_reg) = (map in_use (adv_inst st))[unat i := True]"
    and use': "in_use (adv_inst st_reg ! unat i)"
    and same: "advertising_event_properties (adv_inst st_reg ! unat i) =
                 advertising_event_properties (adv_inst st ! unat i)"
              "timeout_s (adv_inst st_reg ! unat i) = timeout_s (adv_inst st ! unat i)"
              "tx_power (adv_inst st_reg ! unat i) = tx_power (adv_inst st ! unat i)"
    and tab: "(adv_inst st_reg)[unat i := adv_inst st ! unat i] = adv_inst st"
    unfolding st0 by blast
  from ok' have i': "unat i < length (adv_inst st_reg)" by (simp add: inst_ok_def)
  have cg: "SetData_prepare (configured (adv_inst st_reg ! unat i) params txp) b x =
            SetData_prepare (configured (adv_inst st ! unat i) params txp) b x" for b x
    using same by (intro SetData_prepare_cong) (simp_all add: configured_def)
  have p1: "SetData_prepare (configured (adv_inst st_reg ! unat i) params txp) False ad = Some d1"
    and p2: "SetData_prepare (configured (adv_inst st_reg ! unat i) params txp) True sr = Some d2"
    using prep1 prep2 cg by simp_all
  note sas = SAS_chained[OF ok' use' idle' p1 p2, where ?i0.0=0 and n=n and pp=pp and pd=pd and ts=ts and tk=tk]
  have a0: "adv_inst st0 = (adv_inst st_reg)[unat i := (adv_inst st_reg ! unat i)
               \<lparr>advertising_event_properties := ucast (p_advertising_event_properties params),
                tx_power := p_tx_power params\<rparr>]"
    unfolding r sas(1) by simp
  have scr: "StartAdvertisingSet_script (adv_inst st0 ! unat i) i params d1 d2 pp pd =
             StartAdvertisingSet_script (adv_inst st_reg ! unat i) i params d1 d2 pp pd"
    unfolding a0 using i' by (intro script_cong) simp_all
  have t0: "(adv_inst st0)[unat i := adv_inst st_reg ! unat i] = adv_inst st_reg"
    "own_address_type (adv_inst st0 ! unat i) = own_address_type (adv_inst st_reg ! unat i)"
    "own_address (adv_inst st0 ! unat i) = own_address (adv_inst st_reg ! unat i)"
    unfolding a0 using i' by simp_all
  have "strictly_ordered (visible (trace st))
           (StartAdvertisingSet_script (adv_inst st0 ! unat i) i params d1 d2 pp pd)
           (completed (visible (trace st)) ((map in_use (adv_inst st))[unat i := True]) n [i, txp, 0])
           (compensated (visible (trace st)) (adv_inst st_reg)
              (ucast (p_advertising_event_properties params)) n i) txp st0"
    using SAS_ordered[OF ok' use' idle' p1 p2, where ?i0.0=0 and n=n and pp=pp and pd=pd and ts=ts and tk=tk]
    unfolding scr unfolding r vis fl .
  then show "strictly_ordered (visible (trace st))
           (StartAdvertisingSet_script (adv_inst st0 ! unat i) i params d1 d2 pp pd)
           (completed (visible (trace st)) ((map in_use (adv_inst st))[unat i := True]) n [i, txp, 0])
           (compensated (visible (trace st)) (adv_inst st0)
              (ucast (p_advertising_event_properties params)) n i) txp st0"
    by (rule strictly_ordered_mono) (erule compensated_tab[OF _ t0], assumption)
  have "(adv_inst st0)[unat i := adv_inst st ! unat i] =
        ((adv_inst st0)[unat i := adv_inst st_reg ! unat i])[unat i := adv_inst st ! unat i]"
    by simp
  also have "\<dots> = adv_inst st"
    unfolding t0(1) tab ..
  finally show "(adv_inst st0)[unat i := adv_inst st ! unat i] = adv_inst st" .
qed

lemma StartAdvertisingSet_no_callback:
  assumes wf: "length (adv_inst st) = unat (inst_count st)"
    and ff: "first_free (adv_inst st) (unat i)"
    and spt: "BLE_PRIVACY_SPT (plat st)" and priv: "\<not> BTM_BleLocalPrivacyEnabled (plat st)"
  shows "StartAdvertisingSet k params ad sr pp pd ts tk st =
           upd_inst (unat i) (\<lambda>p. p\<lparr>in_use := True\<rparr>) st"
proof -
  let ?K = "SAS_RegisterCb (CreatorParams 0 k params ad sr pp pd ts tk)"
  from ff have i: "unat i < length (adv_inst st)" "\<not> in_use (adv_inst st ! unat i)"
    and before: "\<forall>j. 0 \<le> j \<and> j < unat i \<longrightarrow> in_use (adv_inst st ! j)"
    by (simp_all add: first_free_def)
  have "RegisterAdvertiser_loop 0 ?K st = RegisterAdvertiser_loop (unat i) ?K st"
    by (rule Register_loop_skip[OF _ i(1) wf before]) simp
  also have "\<dots> = upd_inst (unat i) (\<lambda>p. p\<lparr>in_use := True\<rparr>) st"
    unfolding Register_loop_free[OF i(1) wf i(2)] using spt priv by (simp add: Let_def)
  finally show ?thesis
    by (simp add: StartAdvertisingSet_def RegisterAdvertiser_def Let_def)
qed

lemma strictly_ordered_step:
  "strictly_ordered vis0 script Q F txp st0 \<Longrightarrow> k < length script \<Longrightarrow>
   map fst (hci_pending (drive (replicate k (0, txp)) st0)) = [script ! k] \<and>
   fault (drive (replicate k (0, txp)) st0) = None \<and>
   visible (trace (drive (replicate k (0, txp)) st0)) = vis0 @ map HciCmd (take (Suc k) script)"
  by (simp add: strictly_ordered_def)

lemma strictly_ordered_stop:
  "strictly_ordered vis0 script Q F txp st0 \<Longrightarrow> k < length script \<Longrightarrow> s \<noteq> 0 \<Longrightarrow>
   F (take (Suc k) script) s (drive (replicate k (0, txp) @ [(s, t)]) st0)"
  by (simp add: strictly_ordered_def)

lemma strictly_ordered_end:
  "strictly_ordered vis0 script Q F txp st0 \<Longrightarrow> length script = m \<Longrightarrow>
   Q script (drive (replicate m (0, txp)) st0)"
  by (auto simp add: strictly_ordered_def)

lemma flags_restored:
  assumes "T'[j := T ! j] = T" and "in_use (T' ! j) = in_use (T ! j)"
  shows "map in_use T' = map in_use T"
proof -
  have "map in_use T = (map in_use T')[j := in_use (T ! j)]"
    using assms(1) by (metis map_update)
  moreover have "(map in_use T')[j := in_use (T ! j)] = map in_use T'"
  proof (cases "j < length T'")
    case True
    then show ?thesis using assms(2) by (simp add: list_update_same_conv)
  next
    case False
    then show ?thesis by (metis list_update_beyond length_map not_less)
  qed
  ultimately show ?thesis by simp
qed


section \<open>The fragmenter round trip\<close>

text \<open>
  Claim C3. A payload handed to \<open>DivideAndSendData\<close>, with nothing else outstanding
  and every command acknowledged with status 0, reaches the sender as the chunks of
  \<open>DivideAndSendData_chunks\<close>, in order, after which the done callback runs with
  status 0. The bytes of the chunks, concatenated, are the payload. A payload of at most
  251 bytes, the empty one included, is one chunk tagged \<open>COMPLETE\<close> (3); a longer one
  is one chunk tagged \<open>FIRST\<close> (1), then chunks tagged \<open>INTERMEDIATE\<close> (0), then one
  tagged \<open>LAST\<close> (2); every chunk but the last has 251 bytes, and the length passed
  with a chunk is its number of bytes.
\<close>

theorem fragmenter_round_trip:
  assumes "hci_pending st = []"
  shows "drive (replicate (length (DivideAndSendData_chunks True data 0)) (0, txp))
           (DivideAndSendData i data done_cb sender st) =
         run_cb done_cb [0]
           (add_cmds (map (sender_cmd sender i) (DivideAndSendData_chunks True data 0)) st)
       \<and> concat (map chunk_bytes (DivideAndSendData_chunks True data 0)) = data
       \<and> (length data \<le> 251 \<longrightarrow>
            DivideAndSendData_chunks True data 0 = [(0x03, of_nat (length data), data)])
       \<and> (length data > 251 \<longrightarrow>
            (\<exists>m. map fst (DivideAndSendData_chunks True data 0) = 0x01 # replicate m 0x00 @ [0x02]))
       \<and> (\<forall>c \<in> set (butlast (DivideAndSendData_chunks True data 0)). length (chunk_bytes c) = 251)
       \<and> (\<forall>c \<in> set (DivideAndSendData_chunks True data 0).
             length (chunk_bytes c) \<le> 251 \<and> unat (fst (snd c)) = length (chunk_bytes c))"
proof -
  let ?chunks = "DivideAndSendData_chunks True data 0"
  have "drive (replicate (length ?chunks) (0, txp))
           (DivideAndSendDataRecursively True i data 0 done_cb sender 0 st) =
        drive (drop (length ?chunks) (replicate (length ?chunks) (0, txp)))
          (run_cb done_cb [0] (add_cmds (map (sender_cmd sender i) ?chunks) st))"
    using assms by (intro DASR_drive_success) simp_all
  then have run: "drive (replicate (length ?chunks) (0, txp)) (DivideAndSendData i data done_cb sender st) =
         run_cb done_cb [0] (add_cmds (map (sender_cmd sender i) ?chunks) st)"
    by (simp add: DivideAndSendData.simps)
  have cat: "concat (map chunk_bytes ?chunks) = data"
    using chunks_concat[of 0 data True] by (simp add: chunk_bytes_eq)
  have small: "length data \<le> 251 \<longrightarrow> ?chunks = [(0x03, of_nat (length data), data)]"
    using chunks_small[of data] by (simp add: COMPLETE_def)
  have large: "length data > 251 \<longrightarrow> (\<exists>m. map fst ?chunks = 0x01 # replicate m 0x00 @ [0x02])"
    using chunks_large_tags[of data] by (simp add: FIRST_def INTERMEDIATE_def LAST_def)
  have lens: "(\<forall>c \<in> set (butlast ?chunks). length (chunk_bytes c) = 251) \<and>
              (\<forall>c \<in> set ?chunks. length (chunk_bytes c) \<le> 251 \<and> unat (fst (snd c)) = length (chunk_bytes c))"
    using chunks_lengths[of 0 data True] by (simp add: chunk_bytes_eq)
  from run cat small large lens show ?thesis by blast
qed


text \<open>The empty payload and a payload of 300 bytes.\<close>

theorem fragmenter_round_trip_witness:
  "hci_pending ex_manager = []
   \<and> DivideAndSendData_chunks True [] 0 = [(0x03, 0, [])]
   \<and> trace (drive [(0, 0)] (DivideAndSendData 1 [] (UserCb 7) (SetDataAdvDataSender True) ex_manager)) =
       trace ex_manager @ [HciCmd (HciSetScanResponseData 1 0x03 0x01 0 []), CbRun 7 [0]]
   \<and> map fst (DivideAndSendData_chunks True (replicate 300 0x41) 0) = [0x01, 0x02]
   \<and> map (length \<circ> chunk_bytes) (DivideAndSendData_chunks True (replicate 300 0x41) 0) = [251, 49]
   \<and> concat (map chunk_bytes (DivideAndSendData_chunks True (replicate 300 0x41) 0)) = replicate 300 0x41"
proof -
  note small = fragmenter_round_trip[OF ex_manager_pending, of "[]" 0 1 "UserCb 7" "SetDataAdvDataSender True"]
  note large = fragmenter_round_trip[OF ex_manager_pending, of "replicate 300 0x41" 0 1 "UserCb 7" "SetDataAdvDataSender True"]
  from small have c0: "DivideAndSendData_chunks True [] 0 = [(0x03, 0, [])]"
    by simp
  from small have "trace (drive [(0, 0)] (DivideAndSendData 1 [] (UserCb 7) (SetDataAdvDataSender True) ex_manager)) =
       trace ex_manager @ [HciCmd (HciSetScanResponseData 1 0x03 0x01 0 []), CbRun 7 [0]]"
    unfolding c0 by (simp add: log_event_def)
  moreover from large have "concat (map chunk_bytes (DivideAndSendData_chunks True (replicate 300 0x41) 0)) = replicate 300 0x41"
    by blast
  moreover have "map fst (DivideAndSendData_chunks True (replicate 300 0x41) 0) = [0x01, 0x02]"
    "map (length \<circ> chunk_bytes) (DivideAndSendData_chunks True (replicate 300 0x41) 0) = [251, 49]"
    by (simp_all add: chunks_300 chunk_bytes_def)
  ultimately show ?thesis
    using ex_manager_pending c0 by simp
qed


section \<open>Registration\<close>

text \<open>
  Claim C7. On a table of \<open>inst_count\<close> instances, \<open>RegisterAdvertiser\<close> runs the
  callback with (0xFF, \<open>ADVERTISE_FAILED_TOO_MANY_ADVERTISERS\<close>) exactly when every
  instance is in use, and then changes nothing else. Otherwise the first slot that is not
  in use is marked in use and no other slot changes; the callback is run with the slot's
  id and status 0, or, with privacy support compiled in, an address is requested (local
  privacy on) or nothing more happens (local privacy off). The table keeps its length, so
  the instances in use are never more than \<open>inst_count\<close>.
\<close>

theorem Register_allocation:
  assumes wf: "length (adv_inst st) = unat (inst_count st)"
    and code: "ADVERTISE_FAILED_TOO_MANY_ADVERTISERS (plat st) \<noteq> BTM_BLE_MULTI_ADV_SUCCESS"
  shows "(trace (RegisterAdvertiser (UserCb n) st) =
            trace st @ [CbRun n [0xFF, ADVERTISE_FAILED_TOO_MANY_ADVERTISERS (plat st)]])
           = (\<forall>p \<in> set (adv_inst st). in_use p)
       \<and> ((\<forall>p \<in> set (adv_inst st). in_use p) \<longrightarrow>
            RegisterAdvertiser (UserCb n) st =
              log_event (CbRun n [0xFF, ADVERTISE_FAILED_TOO_MANY_ADVERTISERS (plat st)]) st)
       \<and> (\<forall>i. first_free (adv_inst st) i \<longrightarrow>
            in_use (adv_inst (RegisterAdvertiser (UserCb n) st) ! i) \<and>
            (\<forall>j. j \<noteq> i \<longrightarrow> adv_inst (RegisterAdvertiser (UserCb n) st) ! j = adv_inst st ! j) \<and>
            trace (RegisterAdvertiser (UserCb n) st) = trace st @
              (if \<not> BLE_PRIVACY_SPT (plat st)
               then [CbRun n [inst_id (adv_inst st ! i), BTM_BLE_MULTI_ADV_SUCCESS]]
               else if BTM_BleLocalPrivacyEnabled (plat st) then [RpaRequested] else []))
       \<and> length (adv_inst (RegisterAdvertiser (UserCb n) st)) = length (adv_inst st)
       \<and> length (filter in_use (adv_inst (RegisterAdvertiser (UserCb n) st)))
            \<le> unat (inst_count (RegisterAdvertiser (UserCb n) st))"
proof -
  let ?st' = "RegisterAdvertiser (UserCb n) st"
  have full: "(\<forall>p \<in> set (adv_inst st). in_use p) \<longrightarrow>
      ?st' = log_event (CbRun n [0xFF, ADVERTISE_FAILED_TOO_MANY_ADVERTISERS (plat st)]) st"
    using Register_loop_full[OF wf, of 0 "UserCb n"]
    by (simp add: RegisterAdvertiser_def)
  have free: "in_use (adv_inst ?st' ! i) \<and>
            (\<forall>j. j \<noteq> i \<longrightarrow> adv_inst ?st' ! j = adv_inst st ! j) \<and>
            trace ?st' = trace st @
              (if \<not> BLE_PRIVACY_SPT (plat st)
               then [CbRun n [inst_id (adv_inst st ! i), BTM_BLE_MULTI_ADV_SUCCESS]]
               else if BTM_BleLocalPrivacyEnabled (plat st) then [RpaRequested] else [])"
    and len_free: "length (adv_inst ?st') = length (adv_inst st) \<and> inst_count ?st' = inst_count st"
    if ff: "first_free (adv_inst st) i" for i
  proof -
    from ff have i: "i < length (adv_inst st)" "\<not> in_use (adv_inst st ! i)"
      and before: "\<forall>j. 0 \<le> j \<and> j < i \<longrightarrow> in_use (adv_inst st ! j)"
      by (auto simp: first_free_def)
    have eq: "?st' = RegisterAdvertiser_loop i (UserCb n) st"
      unfolding RegisterAdvertiser_def
      using i(1) wf before by (intro Register_loop_skip) simp_all
    show "in_use (adv_inst ?st' ! i) \<and>
            (\<forall>j. j \<noteq> i \<longrightarrow> adv_inst ?st' ! j = adv_inst st ! j) \<and>
            trace ?st' = trace st @
              (if \<not> BLE_PRIVACY_SPT (plat st)
               then [CbRun n [inst_id (adv_inst st ! i), BTM_BLE_MULTI_ADV_SUCCESS]]
               else if BTM_BleLocalPrivacyEnabled (plat st) then [RpaRequested] else [])"
      unfolding eq Register_loop_free[OF i(1) wf i(2)]
      using i(1)
      by (simp add: Let_def GenerateRpa_def btm_gen_resolvable_private_addr_def log_event_def)
    show "length (adv_inst ?st') = length (adv_inst st) \<and> inst_count ?st' = inst_count st"
      unfolding eq Register_loop_free[OF i(1) wf i(2)]
      by (simp add: Let_def GenerateRpa_def btm_gen_resolvable_private_addr_def log_event_def)
  qed
  have ex: "(\<forall>p \<in> set (adv_inst st). in_use p) \<or> (\<exists>i. first_free (adv_inst st) i)"
  proof (cases "\<forall>p \<in> set (adv_inst st). in_use p")
    case False
    then obtain m where m: "m < length (adv_inst st)" "\<not> in_use (adv_inst st ! m)"
      by (auto simp: in_set_conv_nth)
    define i where "i = (LEAST m. m < length (adv_inst st) \<and> \<not> in_use (adv_inst st ! m))"
    have "i < length (adv_inst st) \<and> \<not> in_use (adv_inst st ! i)"
      unfolding i_def using m by (intro LeastI[where P="\<lambda>m. m < length (adv_inst st) \<and> \<not> in_use (adv_inst st ! m)"]) simp
    moreover have "\<forall>j < i. in_use (adv_inst st ! j)"
    proof (intro allI impI)
      fix j assume "j < i"
      then have "\<not> (j < length (adv_inst st) \<and> \<not> in_use (adv_inst st ! j))"
        unfolding i_def by (rule not_less_Least)
      moreover have "j < length (adv_inst st)" using \<open>j < i\<close> calculation \<open>i < length (adv_inst st) \<and> \<not> in_use (adv_inst st ! i)\<close> by simp
      ultimately show "in_use (adv_inst st ! j)" by simp
    qed
    ultimately show ?thesis by (auto simp: first_free_def)
  qed simp
  have len: "length (adv_inst ?st') = length (adv_inst st) \<and> inst_count ?st' = inst_count st"
    using ex full len_free by (auto simp: log_event_def)
  then have "length (filter in_use (adv_inst ?st')) \<le> unat (inst_count ?st')"
    using wf length_filter_le[of in_use "adv_inst ?st'"] by simp
  moreover have "(trace ?st' = trace st @ [CbRun n [0xFF, ADVERTISE_FAILED_TOO_MANY_ADVERTISERS (plat st)]])
           = (\<forall>p \<in> set (adv_inst st). in_use p)"
  proof (cases "\<forall>p \<in> set (adv_inst st). in_use p")
    case True
    with full show ?thesis by (simp add: log_event_def)
  next
    case False
    with ex obtain i where "first_free (adv_inst st) i" by blast
    from free[OF this] code False show ?thesis by auto
  qed
  ultimately show ?thesis using full free len by blast
qed


text \<open>A free table, and a table with every slot taken.\<close>

theorem Register_allocation_witness:
  "length (adv_inst ex_manager) = unat (inst_count ex_manager)
   \<and> ADVERTISE_FAILED_TOO_MANY_ADVERTISERS (plat ex_manager) \<noteq> BTM_BLE_MULTI_ADV_SUCCESS
   \<and> map in_use (adv_inst ex_manager) = [False, False, False]
   \<and> in_use (adv_inst (RegisterAdvertiser (UserCb 7) ex_manager) ! 0)
   \<and> trace (RegisterAdvertiser (UserCb 7) ex_manager) = trace ex_manager @ [CbRun 7 [0, 0]]
   \<and> length (adv_inst ex_full) = unat (inst_count ex_full)
   \<and> ADVERTISE_FAILED_TOO_MANY_ADVERTISERS (plat ex_full) \<noteq> BTM_BLE_MULTI_ADV_SUCCESS
   \<and> map in_use (adv_inst ex_full) = [True, True, True]
   \<and> trace (RegisterAdvertiser (UserCb 7) ex_full) = trace ex_full @ [CbRun 7 [0xFF, 2]]"
proof -
  have wf1: "length (adv_inst ex_manager) = unat (inst_count ex_manager)"
    and c1: "ADVERTISE_FAILED_TOO_MANY_ADVERTISERS (plat ex_manager) \<noteq> BTM_BLE_MULTI_ADV_SUCCESS"
    and ff: "first_free (adv_inst ex_manager) 0"
    and id0: "inst_id (adv_inst ex_manager ! 0) = 0"
    and spt: "\<not> BLE_PRIVACY_SPT (plat ex_manager)"
    unfolding ex_manager_def first_free_def by code_simp+
  have wf2: "length (adv_inst ex_full) = unat (inst_count ex_full)"
    and c2: "ADVERTISE_FAILED_TOO_MANY_ADVERTISERS (plat ex_full) \<noteq> BTM_BLE_MULTI_ADV_SUCCESS"
    and full: "\<forall>p \<in> set (adv_inst ex_full). in_use p"
    and tm: "ADVERTISE_FAILED_TOO_MANY_ADVERTISERS (plat ex_full) = 2"
    and m2: "map in_use (adv_inst ex_full) = [True, True, True]"
    unfolding ex_full_def ex_manager_def by code_simp+
  have m1: "map in_use (adv_inst ex_manager) = [False, False, False]"
    unfolding ex_manager_def by code_simp
  note a = Register_allocation[OF wf1 c1, of 7]
  note b = Register_allocation[OF wf2 c2, of 7]
  from a ff id0 spt have "in_use (adv_inst (RegisterAdvertiser (UserCb 7) ex_manager) ! 0)"
    "trace (RegisterAdvertiser (UserCb 7) ex_manager) = trace ex_manager @ [CbRun 7 [0, 0]]"
    by (simp_all add: BTM_BLE_MULTI_ADV_SUCCESS_def)
  moreover from b full tm have "trace (RegisterAdvertiser (UserCb 7) ex_full) = trace ex_full @ [CbRun 7 [0xFF, 2]]"
    by (simp add: log_event_def)
  ultimately show ?thesis using wf1 c1 m1 wf2 c2 m2 by blast
qed


section \<open>The layout of a generated address\<close>

text \<open>
  Claim C4, amended. When \<open>OnRpaGenerationComplete\<close> has stored the address of an
  instance and before it runs its callback, bytes 0 to 2 of \<open>own_address\<close> hold the
  random part: byte 0 is \<open>rand[2]\<close> with bit 7 cleared and bit 6 set, byte 1 is
  \<open>rand[1]\<close>, byte 2 is \<open>rand[0]\<close>. Bytes 3 to 5 hold the hash: byte 5 is byte 0 of
  the encryption output, byte 4 is byte 1, byte 3 is byte 2. The top two bits of byte 0
  are 0 and 1.
\<close>

theorem rpa_layout:
  assumes i: "unat i < length (adv_inst st)"
    and addr: "length (own_address (adv_inst st ! unat i)) = 6"
    and rand: "length rand = 8"
    and enc: "SMP_Encrypt (plat st) (BTM_GetDeviceIDRoot (plat st))
                [rand ! 0, rand ! 1, ((rand ! 2) AND 0x3F) OR 0x40] = Some output"
    and nf: "fault st = None"
  shows "own_address (adv_inst (OnRpaGenerationComplete_store i rand st) ! unat i) =
           [((rand ! 2) AND 0x3F) OR 0x40, rand ! 1, rand ! 0, output ! 2, output ! 1, output ! 0]
       \<and> (own_address (adv_inst (OnRpaGenerationComplete_store i rand st) ! unat i) ! 0) AND 0xC0 = 0x40
       \<and> run_cb (OnRpaGenerationComplete_bound i k) rand st =
           run_cb k [] (OnRpaGenerationComplete_store i rand st)"
proof -
  have a: "own_address (adv_inst (OnRpaGenerationComplete_store i rand st) ! unat i) =
           [((rand ! 2) AND 0x3F) OR 0x40, rand ! 1, rand ! 0, output ! 2, output ! 1, output ! 0]"
    and f: "fault (OnRpaGenerationComplete_store i rand st) = None"
    using i addr enc nf rpa_rand_nth[OF rand]
    by (simp_all add: OnRpaGenerationComplete_store_def rpa_rand_take3[OF rand] Let_def upd6)
  from a have b: "(own_address (adv_inst (OnRpaGenerationComplete_store i rand st) ! unat i) ! 0) AND 0xC0 = 0x40"
    by (simp add: top_bits_01)
  from f rand have c: "run_cb (OnRpaGenerationComplete_bound i k) rand st =
           run_cb k [] (OnRpaGenerationComplete_store i rand st)"
    by (simp add: Let_def)
  from a b c show ?thesis by blast
qed

theorem rpa_layout_witness:
  "unat (0 :: u8) < length (adv_inst ex_manager)
   \<and> length (own_address (adv_inst ex_manager ! unat (0 :: u8))) = 6
   \<and> length ex_rand = 8
   \<and> SMP_Encrypt (plat ex_manager) (BTM_GetDeviceIDRoot (plat ex_manager))
        [ex_rand ! 0, ex_rand ! 1, ((ex_rand ! 2) AND 0x3F) OR 0x40] = Some ([0x01, 0x02, 0x03] @ replicate 13 0)
   \<and> fault ex_manager = None
   \<and> own_address (adv_inst (OnRpaGenerationComplete_store 0 ex_rand ex_manager) ! unat (0 :: u8)) =
        [0x73, 0x22, 0x11, 0x03, 0x02, 0x01]"
proof -
  have i: "unat (0 :: u8) < length (adv_inst ex_manager)"
    and addr: "length (own_address (adv_inst ex_manager ! unat (0 :: u8))) = 6"
    and nf: "fault ex_manager = None"
    and enc: "SMP_Encrypt (plat ex_manager) (BTM_GetDeviceIDRoot (plat ex_manager))
        [ex_rand ! 0, ex_rand ! 1, ((ex_rand ! 2) AND 0x3F) OR 0x40] = Some ([0x01, 0x02, 0x03] @ replicate 13 0)"
    unfolding ex_manager_def ex_rand_def by code_simp+
  have rand: "length ex_rand = 8" by (simp add: ex_rand_def)
  have v: "[((ex_rand ! 2) AND 0x3F) OR 0x40, ex_rand ! 1, ex_rand ! 0] = [0x73, 0x22, 0x11]"
    by (simp add: ex_rand_def)
  from rpa_layout[OF i addr rand enc nf, of DoNothing] v
  have "own_address (adv_inst (OnRpaGenerationComplete_store 0 ex_rand ex_manager) ! unat (0 :: u8)) =
        [0x73, 0x22, 0x11, 0x03, 0x02, 0x01]"
    by simp
  with i addr rand enc nf show ?thesis by blast
qed


text \<open>
  The claim as it was stated (hash in bytes 0 to 2, random part in bytes 3 to 5, top two
  bits of byte 5 equal to 1 and 0) fails for the random bytes 11 22 33 ... and an
  encryption output that starts 01 02 03: byte 5 is 01.
\<close>

theorem rpa_layout_counterexample:
  "SMP_Encrypt ex_platform (BTM_GetDeviceIDRoot ex_platform) [0x11, 0x22, 0x73] =
     Some ([0x01, 0x02, 0x03] @ replicate 13 0)
   \<and> own_address (adv_inst (rpa_complete ex_rand (GenerateRpa 0 DoNothing ex_manager)) ! 0) =
       [0x73, 0x22, 0x11, 0x03, 0x02, 0x01]
   \<and> (own_address (adv_inst (rpa_complete ex_rand (GenerateRpa 0 DoNothing ex_manager)) ! 0) ! 5)
        AND 0xC0 \<noteq> 0x80"
  unfolding ex_manager_def ex_rand_def by code_simp


section \<open>The termination event and the bounds of the table\<close>

text \<open>
  Claim C10. \<open>OnAdvertisingSetTerminated\<close> indexes the instance table with
  \<open>advertising_handle\<close> and nothing on the path of the event compares the handle with
  \<open>inst_count\<close>: on a table of \<open>inst_count\<close> instances the access is outside the
  table exactly when \<open>advertising_handle < inst_count\<close> fails.
\<close>

theorem OnAdvertisingSetTerminated_bounds:
  assumes "length (adv_inst st) = unat (inst_count st)" and "fault st = None"
  shows "(fault (step (AdvertisingSetTerminated status advertising_handle connection_handle n) st)
            = Some OutOfBounds)
         = (\<not> advertising_handle < inst_count st)"
  using assms
  by (auto simp: step_def OnAdvertisingSetTerminated_def Let_def word_less_nat_alt)

text \<open>Handle 1 and handle 3 on a table of three instances.\<close>

theorem OnAdvertisingSetTerminated_bounds_witness:
  "length (adv_inst ex_full) = unat (inst_count ex_full) \<and> fault ex_full = None
   \<and> (1 :: u8) < inst_count ex_full
   \<and> fault (step (AdvertisingSetTerminated 0 1 0x40 0) ex_full) \<noteq> Some OutOfBounds
   \<and> \<not> (3 :: u8) < inst_count ex_full
   \<and> fault (step (AdvertisingSetTerminated 0 3 0x40 0) ex_full) = Some OutOfBounds"
proof -
  have wf: "length (adv_inst ex_full) = unat (inst_count ex_full)" and nf: "fault ex_full = None"
    and c: "inst_count ex_full = 3"
    unfolding ex_full_def ex_manager_def by code_simp+
  show ?thesis
    using OnAdvertisingSetTerminated_bounds[OF wf nf, of 0 1 "0x40" 0]
          OnAdvertisingSetTerminated_bounds[OF wf nf, of 0 3 "0x40" 0] wf nf c
    by simp
qed

section \<open>Validation of the instance id\<close>

text \<open>
  Claim C9, amended. \<open>Enable\<close>, \<open>SetParameters\<close> and \<open>SetData\<close> called with an
  \<open>inst_id\<close> that is not below \<open>inst_count\<close> return without any effect: no state
  changes and no callback is run. \<open>Enable\<close> and \<open>SetParameters\<close> called on an
  instance that is not in use change no instance state and run the callback with
  \<open>BTM_BLE_MULTI_ADV_FAILURE\<close> (\<open>SetParameters\<close> with TX power 0 beside it).
\<close>

theorem validation_failures:
  shows "(inst_count st \<le> i \<longrightarrow>
            Enable i enable k timeout_s' timeout_cb st = st \<and>
            SetParameters i p_params k st = st \<and>
            SetData i is_scan_rsp data k st = st)
       \<and> (i < inst_count st \<and> unat i < length (adv_inst st) \<and> \<not> in_use (adv_inst st ! unat i) \<longrightarrow>
            Enable i enable (UserCb n) timeout_s' timeout_cb st =
              log_event (CbRun n [BTM_BLE_MULTI_ADV_FAILURE (plat st)]) st \<and>
            SetParameters i p_params (UserCb n) st =
              log_event (CbRun n [BTM_BLE_MULTI_ADV_FAILURE (plat st), 0]) st)"
  by (auto simp: Enable.simps SetParameters.simps SetData.simps)

text \<open>Instance id 5 and the unused instance 1 on a table of three instances.\<close>

theorem validation_failures_witness:
  "inst_count ex_manager \<le> 5
   \<and> Enable 5 True (UserCb 7) 0 (UserCb 8) ex_manager = ex_manager
   \<and> SetParameters 5 ex_params (UserCb 7) ex_manager = ex_manager
   \<and> SetData 5 False [] (UserCb 7) ex_manager = ex_manager
   \<and> 1 < inst_count ex_manager \<and> unat (1 :: u8) < length (adv_inst ex_manager)
   \<and> \<not> in_use (adv_inst ex_manager ! unat (1 :: u8))
   \<and> trace (Enable 1 True (UserCb 7) 0 (UserCb 8) ex_manager) = trace ex_manager @ [CbRun 7 [1]]
   \<and> adv_inst (Enable 1 True (UserCb 7) 0 (UserCb 8) ex_manager) = adv_inst ex_manager
   \<and> trace (SetParameters 1 ex_params (UserCb 7) ex_manager) = trace ex_manager @ [CbRun 7 [1, 0]]
   \<and> adv_inst (SetParameters 1 ex_params (UserCb 7) ex_manager) = adv_inst ex_manager"
proof -
  have c: "inst_count ex_manager = 3" and l: "length (adv_inst ex_manager) = 3"
    and u: "\<not> in_use (adv_inst ex_manager ! 1)"
    and f: "BTM_BLE_MULTI_ADV_FAILURE (plat ex_manager) = 1"
    unfolding ex_manager_def by code_simp+
  show ?thesis
    using validation_failures[of ex_manager 5 True "UserCb 7" 0 "UserCb 8" ex_params False "[]" 7]
          validation_failures[of ex_manager 1 True "UserCb 7" 0 "UserCb 8" ex_params False "[]" 7]
          c l u f
    by simp
qed

text \<open>
  The claim as it was stated fails: with instance id 5 none of the three operations runs
  the callback, and \<open>SetData\<close> on the unused instance 1 sends the payload instead of
  reporting a failure.
\<close>

theorem validation_counterexample:
  "inst_count ex_manager \<le> 5
   \<and> trace (Enable 5 True (UserCb 7) 0 (UserCb 8) ex_manager) = trace ex_manager
   \<and> trace (SetParameters 5 ex_params (UserCb 7) ex_manager) = trace ex_manager
   \<and> trace (SetData 5 False [] (UserCb 7) ex_manager) = trace ex_manager
   \<and> \<not> in_use (adv_inst ex_manager ! 1)
   \<and> trace (SetData 1 False [] (UserCb 7) ex_manager) =
        trace ex_manager @ [HciCmd (HciSetAdvertisingData 1 0x03 0x01 0 [])]"
  unfolding ex_manager_def by code_simp

section \<open>Enable with a timeout\<close>

lemma timeout_ms:
  assumes "0 < sint ts" "sint ts \<le> 2147483"
  shows "(scast (ts * 1000 :: c_int) :: 64 word) = word_of_int (sint ts * 1000)"
proof -
  have p: "(2 :: int) ^ 31 = 2147483648" by simp
  have "sint (ts * 1000) = signed_take_bit 31 (sint ts * 1000)"
    by (simp add: sint_word_ariths word_size)
  also have "\<dots> = sint ts * 1000"
  proof (rule signed_take_bit_int_eq_self)
    show "- (2 ^ 31) \<le> sint ts * 1000" unfolding p using assms(1) by linarith
    show "sint ts * 1000 < 2 ^ 31" unfolding p using assms(2) by linarith
  qed
  finally have e: "sint (ts * 1000) = sint ts * 1000" .
  show ?thesis by (simp only: scast_eq e)
qed

text \<open>
  Claim C5, amended. Let \<open>timeout_s\<close> be greater than 0 and \<open>timeout_s * 1000\<close> within
  the range of \<open>int\<close>.

  \<^item> \<open>Enable(inst_id, true, cb, timeout_s, timeout_cb)\<close> on a valid instance in use
    hands \<open>Enable(true, inst_id, 0x0000, 0x00)\<close> to the HCI interface, with
    \<open>EnableWithTimerCb\<close> as its callback, and does nothing else.
  \<^item> In whatever state that command completes, \<open>cb(status)\<close> runs first; then
    \<open>timeout_s\<close> is stored in the instance, a one-shot alarm is created, stored as
    \<open>timeout_timer\<close> and armed for \<open>timeout_s * 1000\<close> milliseconds with the closure
    \<open>Enable(inst_id, false, timeout_cb, 0, DoNothing)\<close>.
  \<^item> In whatever state an alarm armed with that closure fires, the fire is that call of
    \<open>Enable\<close>. If the instance is in use and the alarm is its timeout timer, the call
    cancels and releases the alarm and hands \<open>Enable(false, inst_id, 0x0000, 0x00)\<close> to
    the HCI interface with \<open>timeout_cb\<close> as its callback: \<open>timeout_cb\<close> has not run
    at the fire, and runs with the completion status of the disable command. If the
    instance is not in use, the call runs \<open>timeout_cb\<close> with the failure status and
    hands nothing to the HCI interface.
\<close>

theorem Enable_with_timeout:
  assumes ts: "0 < sint timeout_s'" "sint timeout_s' \<le> 2147483"
  shows "(i < inst_count st \<and> unat i < length (adv_inst st) \<and> in_use (adv_inst st ! unat i) \<longrightarrow>
            Enable i True (UserCb n) timeout_s' (UserCb m) st =
              hci_send (HciEnable True (inst_id (adv_inst st ! unat i)) 0x0000 0x00)
                (EnableWithTimerCb_bound i (UserCb n) timeout_s' (UserCb m)) st)
       \<and> (hci_pending st1 =
            (HciEnable True a 0x0000 0x00,
             EnableWithTimerCb_bound i (UserCb n) timeout_s' (UserCb m)) # rest \<and>
          unat i < length (adv_inst st1) \<and> fault st1 = None \<longrightarrow>
            hci_complete status txp st1 =
              st1\<lparr>hci_pending := rest,
                  adv_inst := (adv_inst st1)[unat i := (adv_inst st1 ! unat i)
                     \<lparr>timeout_s := timeout_s', timeout_timer := Some (length (alarms st1))\<rparr>],
                  alarms := alarms st1 @
                     [\<lparr>a_periodic = False,
                       a_armed = Some (word_of_int (sint timeout_s' * 1000),
                                       Enable_bound i False (UserCb m) 0 DoNothing),
                       a_freed = False\<rparr>],
                  trace := trace st1 @
                     [CbRun n [status], AlarmNew (length (alarms st1)),
                      AlarmSet (length (alarms st1)) (word_of_int (sint timeout_s' * 1000))]\<rparr>)
       \<and> (h < length (alarms st2) \<and>
          alarms st2 ! h =
            \<lparr>a_periodic = False,
             a_armed = Some (ms, Enable_bound i False (UserCb m) 0 DoNothing),
             a_freed = False\<rparr> \<and>
          i < inst_count st2 \<and> unat i < length (adv_inst st2) \<and> fault st2 = None \<longrightarrow>
            alarm_fire h st2 =
              Enable i False (UserCb m) 0 DoNothing
                (st2\<lparr>alarms := (alarms st2)[h := (alarms st2 ! h)\<lparr>a_armed := None\<rparr>]\<rparr>)
            \<and> (in_use (adv_inst st2 ! unat i) \<and> timeout_timer (adv_inst st2 ! unat i) = Some h \<longrightarrow>
                 alarm_fire h st2 =
                   hci_send (HciEnable False (inst_id (adv_inst st2 ! unat i)) 0x0000 0x00) (UserCb m)
                     (upd_inst (unat i) (\<lambda>p. p\<lparr>timeout_timer := None\<rparr>)
                        (st2\<lparr>alarms := (alarms st2)[h := (alarms st2 ! h)
                                          \<lparr>a_armed := None, a_freed := True\<rparr>],
                             trace := trace st2 @ [AlarmCancel h, AlarmFree h]\<rparr>))
                 \<and> (hci_pending st2 = [] \<longrightarrow>
                      trace (hci_complete status2 txp2 (alarm_fire h st2)) =
                        trace st2 @
                        [AlarmCancel h, AlarmFree h,
                         HciCmd (HciEnable False (inst_id (adv_inst st2 ! unat i)) 0x0000 0x00),
                         CbRun m [status2]]))
            \<and> (\<not> in_use (adv_inst st2 ! unat i) \<longrightarrow>
                 alarm_fire h st2 =
                   log_event (CbRun m [BTM_BLE_MULTI_ADV_FAILURE (plat st2)])
                     (st2\<lparr>alarms := (alarms st2)[h := (alarms st2 ! h)\<lparr>a_armed := None\<rparr>]\<rparr>)))"
proof (intro conjI impI)
  assume "i < inst_count st \<and> unat i < length (adv_inst st) \<and> in_use (adv_inst st ! unat i)"
  moreover from ts(1) have "timeout_s' \<noteq> 0" by auto
  ultimately show "Enable i True (UserCb n) timeout_s' (UserCb m) st =
              hci_send (HciEnable True (inst_id (adv_inst st ! unat i)) 0x0000 0x00)
                (EnableWithTimerCb_bound i (UserCb n) timeout_s' (UserCb m)) st"
    by (intro Enable_timer) simp_all
next
  assume a: "hci_pending st1 =
            (HciEnable True a 0x0000 0x00,
             EnableWithTimerCb_bound i (UserCb n) timeout_s' (UserCb m)) # rest \<and>
          unat i < length (adv_inst st1) \<and> fault st1 = None"
  let ?st = "st1\<lparr>hci_pending := rest\<rparr>"
  from a have "hci_complete status txp st1 =
      run_cb (EnableWithTimerCb_bound i (UserCb n) timeout_s' (UserCb m)) [status] ?st"
    by (simp add: hci_complete_def del: run_cb.simps)
  also have "\<dots> = ?st\<lparr>adv_inst := (adv_inst ?st)[unat i := (adv_inst ?st ! unat i)
              \<lparr>timeout_s := timeout_s', timeout_timer := Some (length (alarms ?st))\<rparr>],
        alarms := alarms ?st @ [\<lparr>a_periodic = False,
                         a_armed = Some (scast (timeout_s' * 1000),
                                         Enable_bound i False (UserCb m) 0 DoNothing),
                         a_freed = False\<rparr>],
        trace := trace ?st @ [CbRun n [status], AlarmNew (length (alarms ?st)),
                       AlarmSet (length (alarms ?st)) (scast (timeout_s' * 1000))]\<rparr>"
    using a by (intro EnableWithTimerCb_user) simp_all
  finally show "hci_complete status txp st1 =
              st1\<lparr>hci_pending := rest,
                  adv_inst := (adv_inst st1)[unat i := (adv_inst st1 ! unat i)
                     \<lparr>timeout_s := timeout_s', timeout_timer := Some (length (alarms st1))\<rparr>],
                  alarms := alarms st1 @
                     [\<lparr>a_periodic = False,
                       a_armed = Some (word_of_int (sint timeout_s' * 1000),
                                       Enable_bound i False (UserCb m) 0 DoNothing),
                       a_freed = False\<rparr>],
                  trace := trace st1 @
                     [CbRun n [status], AlarmNew (length (alarms st1)),
                      AlarmSet (length (alarms st1)) (word_of_int (sint timeout_s' * 1000))]\<rparr>"
    unfolding timeout_ms[OF ts] by simp
next
  assume b: "h < length (alarms st2) \<and>
          alarms st2 ! h =
            \<lparr>a_periodic = False,
             a_armed = Some (ms, Enable_bound i False (UserCb m) 0 DoNothing),
             a_freed = False\<rparr> \<and>
          i < inst_count st2 \<and> unat i < length (adv_inst st2) \<and> fault st2 = None"
  let ?st = "st2\<lparr>alarms := (alarms st2)[h := (alarms st2 ! h)\<lparr>a_armed := None\<rparr>]\<rparr>"
  from b have h: "h < length (alarms st2)"
    and al: "alarms st2 ! h =
            \<lparr>a_periodic = False,
             a_armed = Some (ms, Enable_bound i False (UserCb m) 0 DoNothing),
             a_freed = False\<rparr>"
    and i: "i < inst_count st2" "unat i < length (adv_inst st2)" and nf: "fault st2 = None"
    by simp_all
  show fire: "alarm_fire h st2 = Enable i False (UserCb m) 0 DoNothing ?st"
    using h by (simp add: alarm_fire_def alarm_live_def al)
  have live: "alarm_live h ?st"
    using h by (simp add: alarm_live_def al)
  {
    assume u: "in_use (adv_inst st2 ! unat i) \<and> timeout_timer (adv_inst st2 ! unat i) = Some h"
    have "Enable i False (UserCb m) 0 DoNothing ?st =
       hci_send (HciEnable False (inst_id (adv_inst ?st ! unat i)) 0x0000 0x00) (UserCb m)
         (upd_inst (unat i) (\<lambda>p. p\<lparr>timeout_timer := None\<rparr>)
            (?st\<lparr>alarms := (alarms ?st)[h := (alarms ?st ! h)\<lparr>a_armed := None, a_freed := True\<rparr>],
                trace := trace ?st @ [AlarmCancel h, AlarmFree h]\<rparr>))"
      using i u nf live by (intro Enable_cancel) simp_all
    then show e: "alarm_fire h st2 =
                   hci_send (HciEnable False (inst_id (adv_inst st2 ! unat i)) 0x0000 0x00) (UserCb m)
                     (upd_inst (unat i) (\<lambda>p. p\<lparr>timeout_timer := None\<rparr>)
                        (st2\<lparr>alarms := (alarms st2)[h := (alarms st2 ! h)
                                          \<lparr>a_armed := None, a_freed := True\<rparr>],
                             trace := trace st2 @ [AlarmCancel h, AlarmFree h]\<rparr>))"
      unfolding fire using h by simp
    {
      assume "hci_pending st2 = []"
      then show "trace (hci_complete status2 txp2 (alarm_fire h st2)) =
                        trace st2 @
                        [AlarmCancel h, AlarmFree h,
                         HciCmd (HciEnable False (inst_id (adv_inst st2 ! unat i)) 0x0000 0x00),
                         CbRun m [status2]]"
        unfolding e by (simp add: hci_complete_hci_send_other)
    }
  }
  {
    assume "\<not> in_use (adv_inst st2 ! unat i)"
    then show "alarm_fire h st2 =
                   log_event (CbRun m [BTM_BLE_MULTI_ADV_FAILURE (plat st2)]) ?st"
      unfolding fire using i by (simp add: Enable.simps Let_def not_le)
  }
qed


text \<open>
  Set 0 of the example, enabled for 30 seconds: the command, its completion, the fire and
  the completion of the disable command; and the fire after an \<open>Unregister\<close>.
\<close>

theorem Enable_with_timeout_witness:
  "0 < sint (30 :: c_int) \<and> sint (30 :: c_int) \<le> 2147483
   \<and> (0 :: u8) < inst_count ex_registered \<and> unat (0 :: u8) < length (adv_inst ex_registered)
   \<and> in_use (adv_inst ex_registered ! unat (0 :: u8))
   \<and> hci_pending (Enable 0 True (UserCb 7) 30 (UserCb 8) ex_registered) =
        [(HciEnable True 0 0 0, EnableWithTimerCb_bound 0 (UserCb 7) 30 (UserCb 8))]
   \<and> trace (hci_complete 0 0 (Enable 0 True (UserCb 7) 30 (UserCb 8) ex_registered)) =
        trace ex_registered @ [HciCmd (HciEnable True 0 0 0), CbRun 7 [0], AlarmNew 3, AlarmSet 3 30000]
   \<and> alarms ex_enabled ! 3 =
        \<lparr>a_periodic = False, a_armed = Some (30000, Enable_bound 0 False (UserCb 8) 0 DoNothing),
         a_freed = False\<rparr>
   \<and> in_use (adv_inst ex_enabled ! unat (0 :: u8))
   \<and> timeout_timer (adv_inst ex_enabled ! unat (0 :: u8)) = Some 3
   \<and> trace (hci_complete 9 0 (alarm_fire 3 ex_enabled)) =
        trace ex_enabled @ [AlarmCancel 3, AlarmFree 3, HciCmd (HciEnable False 0 0 0), CbRun 8 [9]]
   \<and> in_use (adv_inst (Unregister 0 ex_enabled) ! unat (0 :: u8)) = False
   \<and> trace (alarm_fire 3 (Unregister 0 ex_enabled)) =
        trace (Unregister 0 ex_enabled) @ [CbRun 8 [1]]"
proof -
  have t: "0 < sint (30 :: c_int)" "sint (30 :: c_int) \<le> 2147483"
    by simp_all
  have r: "(0 :: u8) < inst_count ex_registered \<and> unat (0 :: u8) < length (adv_inst ex_registered)
           \<and> in_use (adv_inst ex_registered ! unat (0 :: u8))"
    and rv: "inst_id (adv_inst ex_registered ! 0) = 0" "hci_pending ex_registered = []"
      "fault ex_registered = None" "length (alarms ex_registered) = 3"
      "(word_of_int (sint (30 :: c_int) * 1000) :: 64 word) = 30000"
    unfolding ex_registered_def ex_manager_def by code_simp+
  have e: "h3 < length (alarms ex_enabled) \<and>
       alarms ex_enabled ! h3 =
         \<lparr>a_periodic = False, a_armed = Some (30000, Enable_bound 0 False (UserCb 8) 0 DoNothing),
          a_freed = False\<rparr> \<and>
       (0 :: u8) < inst_count ex_enabled \<and> unat (0 :: u8) < length (adv_inst ex_enabled) \<and>
       fault ex_enabled = None"
    and eu: "in_use (adv_inst ex_enabled ! unat (0 :: u8)) \<and>
             timeout_timer (adv_inst ex_enabled ! unat (0 :: u8)) = Some h3"
    and ev: "hci_pending ex_enabled = []" "inst_id (adv_inst ex_enabled ! 0) = 0"
    if "h3 = 3" for h3 :: nat
    unfolding that ex_enabled_def ex_manager_def by code_simp+
  have u: "h3 < length (alarms (Unregister 0 ex_enabled)) \<and>
       alarms (Unregister 0 ex_enabled) ! h3 =
         \<lparr>a_periodic = False, a_armed = Some (30000, Enable_bound 0 False (UserCb 8) 0 DoNothing),
          a_freed = False\<rparr> \<and>
       (0 :: u8) < inst_count (Unregister 0 ex_enabled) \<and>
       unat (0 :: u8) < length (adv_inst (Unregister 0 ex_enabled)) \<and>
       fault (Unregister 0 ex_enabled) = None"
    and uu: "\<not> in_use (adv_inst (Unregister 0 ex_enabled) ! unat (0 :: u8))"
    and uv: "BTM_BLE_MULTI_ADV_FAILURE (plat (Unregister 0 ex_enabled)) = 1"
    if "h3 = 3" for h3 :: nat
    unfolding that ex_enabled_def ex_manager_def by code_simp+
  note a = Enable_with_timeout[OF t, of 0 ex_registered 7 8]
  from a r have issue: "Enable 0 True (UserCb 7) 30 (UserCb 8) ex_registered =
      hci_send (HciEnable True (inst_id (adv_inst ex_registered ! unat (0 :: u8))) 0 0)
        (EnableWithTimerCb_bound 0 (UserCb 7) 30 (UserCb 8)) ex_registered"
    by blast
  have pend: "hci_pending (Enable 0 True (UserCb 7) 30 (UserCb 8) ex_registered) =
        [(HciEnable True 0 0 0, EnableWithTimerCb_bound 0 (UserCb 7) 30 (UserCb 8))]"
    unfolding issue by (simp add: rv)
  have pre: "hci_pending (Enable 0 True (UserCb 7) 30 (UserCb 8) ex_registered) =
          (HciEnable True 0 0 0, EnableWithTimerCb_bound 0 (UserCb 7) 30 (UserCb 8)) # [] \<and>
        unat (0 :: u8) < length (adv_inst (Enable 0 True (UserCb 7) 30 (UserCb 8) ex_registered)) \<and>
        fault (Enable 0 True (UserCb 7) 30 (UserCb 8) ex_registered) = None"
    using pend r unfolding issue by (simp add: rv)
  note b = Enable_with_timeout[OF t, where i=0 and n=7 and m=8 and a=0 and rest="[]"
      and ?st1.0="Enable 0 True (UserCb 7) 30 (UserCb 8) ex_registered" and status=0 and txp=0]
  from b pre have "trace (hci_complete 0 0 (Enable 0 True (UserCb 7) 30 (UserCb 8) ex_registered)) =
      trace (Enable 0 True (UserCb 7) 30 (UserCb 8) ex_registered) @
        [CbRun 7 [0], AlarmNew (length (alarms (Enable 0 True (UserCb 7) 30 (UserCb 8) ex_registered))),
         AlarmSet (length (alarms (Enable 0 True (UserCb 7) 30 (UserCb 8) ex_registered)))
           (word_of_int (sint (30 :: c_int) * 1000))]"
    by simp
  then have compl: "trace (hci_complete 0 0 (Enable 0 True (UserCb 7) 30 (UserCb 8) ex_registered)) =
        trace ex_registered @ [HciCmd (HciEnable True 0 0 0), CbRun 7 [0], AlarmNew 3, AlarmSet 3 30000]"
    unfolding issue by (simp add: rv)
  note c = Enable_with_timeout[OF t, where i=0 and m=8 and h=3 and ms=30000 and ?st2.0=ex_enabled
      and ?status2.0=9 and ?txp2.0=0]
  from c e[OF refl] eu[OF refl] ev(1)[OF refl]
  have "trace (hci_complete 9 0 (alarm_fire 3 ex_enabled)) =
        trace ex_enabled @ [AlarmCancel 3, AlarmFree 3,
          HciCmd (HciEnable False (inst_id (adv_inst ex_enabled ! unat (0 :: u8))) 0 0), CbRun 8 [9]]"
    by blast
  then have fire: "trace (hci_complete 9 0 (alarm_fire 3 ex_enabled)) =
        trace ex_enabled @ [AlarmCancel 3, AlarmFree 3, HciCmd (HciEnable False 0 0 0), CbRun 8 [9]]"
    by (simp add: ev(2)[OF refl])
  note d = Enable_with_timeout[OF t, where i=0 and m=8 and h=3 and ms=30000
      and ?st2.0="Unregister 0 ex_enabled"]
  from d u[OF refl] uu[OF refl]
  have "alarm_fire 3 (Unregister 0 ex_enabled) =
          log_event (CbRun 8 [BTM_BLE_MULTI_ADV_FAILURE (plat (Unregister 0 ex_enabled))])
            ((Unregister 0 ex_enabled)\<lparr>alarms := (alarms (Unregister 0 ex_enabled))
                [3 := (alarms (Unregister 0 ex_enabled) ! 3)\<lparr>a_armed := None\<rparr>]\<rparr>)"
    by blast
  then have stale: "trace (alarm_fire 3 (Unregister 0 ex_enabled)) =
        trace (Unregister 0 ex_enabled) @ [CbRun 8 [1]]"
    by (simp add: uv[OF refl])
  from e[OF refl] have al: "alarms ex_enabled ! 3 =
        \<lparr>a_periodic = False, a_armed = Some (30000, Enable_bound 0 False (UserCb 8) 0 DoNothing),
         a_freed = False\<rparr>"
    by blast
  from t r pend compl al eu[OF refl] fire uu[OF refl] stale show ?thesis
    by simp
qed


text \<open>
  The claim as it was stated (the fire calls \<open>Enable\<close> with \<open>DoNothing\<close> as
  callback and also runs \<open>timeout_cb(inst_id)\<close>) fails: after the fire the timeout
  callback 8 has not run and is the callback of the outstanding disable command; it
  runs when that command completes, with its status 9, not with the instance id 0.
\<close>

theorem Enable_with_timeout_counterexample:
  "trace (run [CallEnable 0 True (UserCb 7) 30 (UserCb 8), HciComplete 0 0, AlarmFire 3] ex_registered) =
     trace ex_registered @ [HciCmd (HciEnable True 0 0 0), CbRun 7 [0], AlarmNew 3, AlarmSet 3 30000,
       AlarmCancel 3, AlarmFree 3, HciCmd (HciEnable False 0 0 0)]
   \<and> hci_pending (run [CallEnable 0 True (UserCb 7) 30 (UserCb 8), HciComplete 0 0, AlarmFire 3] ex_registered) =
       [(HciEnable False 0 0 0, UserCb 8)]
   \<and> trace (run [CallEnable 0 True (UserCb 7) 30 (UserCb 8), HciComplete 0 0, AlarmFire 3,
                 HciComplete 9 0] ex_registered) =
     trace ex_registered @ [HciCmd (HciEnable True 0 0 0), CbRun 7 [0], AlarmNew 3, AlarmSet 3 30000,
       AlarmCancel 3, AlarmFree 3, HciCmd (HciEnable False 0 0 0), CbRun 8 [9]]"
  unfolding ex_registered_def ex_manager_def by code_simp

section \<open>Unregister and the timers\<close>

text \<open>
  What \<open>Unregister(inst_id)\<close> does on a valid instance: it issues \<open>Enable(false)\<close>,
  cancels the address rotation timer and clears \<open>in_use\<close>. It reads and writes no other
  alarm: the timeout timer of the instance and its alarm are as they were.
\<close>

lemma Unregister_timers:
  assumes "i < inst_count st" "unat i < length (adv_inst st)" "fault st = None"
    and "alarm_live (adv_raddr_timer (adv_inst st ! unat i)) st"
  shows "\<not> in_use (adv_inst (Unregister i st) ! unat i)
       \<and> a_armed (alarms (Unregister i st) ! adv_raddr_timer (adv_inst st ! unat i)) = None
       \<and> timeout_timer (adv_inst (Unregister i st) ! unat i) = timeout_timer (adv_inst st ! unat i)
       \<and> (\<forall>h. h \<noteq> adv_raddr_timer (adv_inst st ! unat i) \<longrightarrow>
             alarms (Unregister i st) ! h = alarms st ! h)
       \<and> trace (Unregister i st) = trace st @
           [HciCmd (HciEnable False i 0x00 0x00), AlarmCancel (adv_raddr_timer (adv_inst st ! unat i))]"
  using assms
  by (simp add: Unregister_def Let_def not_le alarm_cancel_def alarm_live_def upd_inst_def)

text \<open>
  Claim C6. An instance that is not in use is to have no active timer, and
  \<open>Unregister\<close> is to cancel the address rotation timer and any armed timeout timer.
  \<open>Unregister\<close> does not look at \<open>timeout_timer\<close>. On the example controller:
  register, \<open>Enable(0, true, cb 7, 30, cb 8)\<close>, completion with status 0,
  \<open>Unregister(0)\<close>. Now instance 0 is not in use, its address rotation timer (alarm 0) is
  cancelled, and its timeout timer (alarm 3) is armed with
  \<open>Enable(0, false, cb 8, 0, DoNothing)\<close> and not released.

  The same run continued: the disable command of \<open>Unregister\<close> completes, the slot is
  registered again and its new owner calls \<open>Enable(0, true, cb 9, 60, cb 10)\<close>, which
  completes and arms alarm 4. Then alarm 3 of the first owner fires: it cancels and
  releases alarm 4, disables the set of the new owner and, when that command completes,
  runs callback 8 of the first owner.
\<close>

theorem Unregister_leaves_timeout_timer:
  "in_use (adv_inst (run [CallRegisterAdvertiser DoNothing2,
       CallEnable 0 True (UserCb 7) 30 (UserCb 8), HciComplete 0 0, CallUnregister 0] ex_manager) ! 0) = False
   \<and> a_armed (alarms (run [CallRegisterAdvertiser DoNothing2,
       CallEnable 0 True (UserCb 7) 30 (UserCb 8), HciComplete 0 0, CallUnregister 0] ex_manager) ! 0) = None
   \<and> timeout_timer (adv_inst (run [CallRegisterAdvertiser DoNothing2,
       CallEnable 0 True (UserCb 7) 30 (UserCb 8), HciComplete 0 0, CallUnregister 0] ex_manager) ! 0) = Some 3
   \<and> alarms (run [CallRegisterAdvertiser DoNothing2,
       CallEnable 0 True (UserCb 7) 30 (UserCb 8), HciComplete 0 0, CallUnregister 0] ex_manager) ! 3 =
       \<lparr>a_periodic = False, a_armed = Some (30000, Enable_bound 0 False (UserCb 8) 0 DoNothing),
        a_freed = False\<rparr>
   \<and> fault (run [CallRegisterAdvertiser DoNothing2,
       CallEnable 0 True (UserCb 7) 30 (UserCb 8), HciComplete 0 0, CallUnregister 0] ex_manager) = None
   \<and> trace (run [CallRegisterAdvertiser DoNothing2,
       CallEnable 0 True (UserCb 7) 30 (UserCb 8), HciComplete 0 0, CallUnregister 0, HciComplete 0 0,
       CallRegisterAdvertiser DoNothing2, CallEnable 0 True (UserCb 9) 60 (UserCb 10), HciComplete 0 0,
       AlarmFire 3, HciComplete 0 0] ex_manager) =
       trace ex_manager @
       [HciCmd (HciEnable True 0 0 0), CbRun 7 [0], AlarmNew 3, AlarmSet 3 30000,
        HciCmd (HciEnable False 0 0 0), AlarmCancel 0,
        HciCmd (HciEnable True 0 0 0), CbRun 9 [0], AlarmNew 4, AlarmSet 4 60000,
        AlarmCancel 4, AlarmFree 4, HciCmd (HciEnable False 0 0 0), CbRun 8 [0]]
   \<and> in_use (adv_inst (run [CallRegisterAdvertiser DoNothing2,
       CallEnable 0 True (UserCb 7) 30 (UserCb 8), HciComplete 0 0, CallUnregister 0, HciComplete 0 0,
       CallRegisterAdvertiser DoNothing2, CallEnable 0 True (UserCb 9) 60 (UserCb 10), HciComplete 0 0,
       AlarmFire 3, HciComplete 0 0] ex_manager) ! 0)
   \<and> a_freed (alarms (run [CallRegisterAdvertiser DoNothing2,
       CallEnable 0 True (UserCb 7) 30 (UserCb 8), HciComplete 0 0, CallUnregister 0, HciComplete 0 0,
       CallRegisterAdvertiser DoNothing2, CallEnable 0 True (UserCb 9) 60 (UserCb 10), HciComplete 0 0,
       AlarmFire 3, HciComplete 0 0] ex_manager) ! 4)"
  unfolding ex_manager_def by code_simp

section \<open>The preprocessing of \<open>SetData\<close>\<close>

text \<open>
  Claim C8. On a legacy connectable instance \<open>SetData\<close> puts the flags structure in
  front of an advertising payload and then walks the structures, writing the TX power
  into byte \<open>i + 2\<close> of every structure whose type byte is 0x0A
  (\<open>SetData_prepare_structures\<close> above shows this for payloads in which every TX power
  structure has a value byte). The walk does not compare \<open>i + 1\<close> and \<open>i + 2\<close> with
  the size of the payload. For the payload 01 0A, one structure of type 0x0A without a
  value, the flags are put in front, the walk reaches the structure at index 3 and the
  store to index 5 is one past the end of the five bytes: \<open>SetData\<close> stops there and
  nothing is sent.
\<close>

theorem SetData_tx_power_out_of_bounds:
  "advertising_event_properties (adv_inst ex_legacy ! 0) = 0x13
   \<and> in_use (adv_inst ex_legacy ! 0)
   \<and> SetData_flags (adv_inst ex_legacy ! 0) False [0x01, 0x0A] = [0x02, 0x01, 0x02, 0x01, 0x0A]
   \<and> SetData_prepare (adv_inst ex_legacy ! 0) False [0x01, 0x0A] = None
   \<and> fault (SetData 0 False [0x01, 0x0A] (UserCb 7) ex_legacy) = Some OutOfBounds
   \<and> trace (SetData 0 False [0x01, 0x0A] (UserCb 7) ex_legacy) = trace ex_legacy"
  unfolding ex_legacy_def ex_manager_def by code_simp

section \<open>The order of the commands of a pipeline\<close>




section \<open>A failed \<open>StartAdvertisingSet\<close>\<close>





end
